theory Spec2Isabelle
  imports Main "HOL-Library.Sublist"
begin

section \<open>JavaScript strings\<close>

text \<open>
  A JavaScript string is modelled as a \<^typ>\<open>string\<close>, one \<^typ>\<open>char\<close> per code unit.
  \<open>s.indexOf(t)\<close> is the index of the first occurrence of \<open>t\<close> in \<open>s\<close>, or \<open>-1\<close>;
  \<open>s.includes(t)\<close> says whether there is one; \<open>s.replace(t, r)\<close> with a string pattern
  replaces the first occurrence only (the replacement used by the extension is the empty
  string, which has no \<open>$\<close> patterns).
\<close>

fun js_indexOf :: "string \<Rightarrow> string \<Rightarrow> int" where
  "js_indexOf [] t = (if t = [] then 0 else - 1)"
| "js_indexOf (c # s) t =
     (if prefix t (c # s) then 0
      else (let r = js_indexOf s t in if r = - 1 then - 1 else r + 1))"

definition js_includes :: "string \<Rightarrow> string \<Rightarrow> bool" where
  "js_includes s t = (js_indexOf s t \<noteq> - 1)"

definition js_replace :: "string \<Rightarrow> string \<Rightarrow> string \<Rightarrow> string" where
  "js_replace s pat rep =
     (let i = js_indexOf s pat
      in if i = - 1 then s else take (nat i) s @ rep @ drop (nat i + length pat) s)"

fun split_on :: "char \<Rightarrow> string \<Rightarrow> string list" where
  "split_on sep [] = [[]]"
| "split_on sep (c # s) =
     (if c = sep then [] # split_on sep s
      else (case split_on sep s of [] \<Rightarrow> [[c]] | seg # segs \<Rightarrow> (c # seg) # segs))"

fun join_sep :: "string \<Rightarrow> string list \<Rightarrow> string" where
  "join_sep sep [] = []"
| "join_sep sep [x] = x"
| "join_sep sep (x # y # ys) = x @ sep @ join_sep sep (y # ys)"

section \<open>Node's \<open>path.posix\<close>\<close>

text \<open>
  The extension imports \<open>posix\<close> from Node's \<open>path\<close> module and calls \<open>join\<close>,
  \<open>dirname\<close> and \<open>basename\<close>. They are string functions; the definitions below follow
  Node's implementation.

  \<open>normalizeString\<close> walks the segments between slashes: an empty segment and \<open>.\<close>
  are dropped, \<open>..\<close> removes the last kept segment unless there is none or it is \<open>..\<close>
  itself (then \<open>..\<close> is kept when the path is relative and dropped when it is absolute).
\<close>

fun normalizeString :: "bool \<Rightarrow> string list \<Rightarrow> string list \<Rightarrow> string list" where
  "normalizeString allowAboveRoot res [] = res"
| "normalizeString allowAboveRoot res (seg # segs) =
     (if seg = [] \<or> seg = ''.'' then normalizeString allowAboveRoot res segs
      else if seg = ''..'' then
        (if res \<noteq> [] \<and> last res \<noteq> ''..''
         then normalizeString allowAboveRoot (butlast res) segs
         else if allowAboveRoot then normalizeString allowAboveRoot (res @ [''..'']) segs
         else normalizeString allowAboveRoot res segs)
      else normalizeString allowAboveRoot (res @ [seg]) segs)"

definition posix_normalize :: "string \<Rightarrow> string" where
  "posix_normalize p =
     (if p = [] then ''.''
      else
        (let isAbsolute = (hd p = CHR ''/'');
             trailingSeparator = (last p = CHR ''/'');
             q = join_sep ''/'' (normalizeString (\<not> isAbsolute) [] (split_on CHR ''/'' p))
         in if q = [] then
              (if isAbsolute then ''/'' else if trailingSeparator then ''./'' else ''.'')
            else
              (let q' = (if trailingSeparator then q @ ''/'' else q)
               in if isAbsolute then CHR ''/'' # q' else q')))"

definition posix_join :: "string list \<Rightarrow> string" where
  "posix_join args =
     (let used = filter (\<lambda>arg. arg \<noteq> []) args
      in if used = [] then ''.'' else posix_normalize (join_sep ''/'' used))"

text \<open>
  \<open>dirname\<close> scans from the end down to index 1: trailing slashes are skipped, then the
  last component, and the path is cut at the slash that precedes it.
\<close>

definition posix_dirname :: "string \<Rightarrow> string" where
  "posix_dirname p =
     (if p = [] then ''.''
      else
        (let hasRoot = (hd p = CHR ''/'');
             r = dropWhile (\<lambda>c. c \<noteq> CHR ''/'') (dropWhile (\<lambda>c. c = CHR ''/'') (rev (tl p)))
         in if r = [] then (if hasRoot then ''/'' else ''.'')
            else if hasRoot \<and> length r = 1 then ''//''
            else take (length r) p))"

text \<open>
  \<open>basename(path)\<close> without a suffix: the last component, trailing slashes ignored.
\<close>

definition posix_basename :: "string \<Rightarrow> string" where
  "posix_basename p =
     rev (takeWhile (\<lambda>c. c \<noteq> CHR ''/'') (dropWhile (\<lambda>c. c = CHR ''/'') (rev p)))"

text \<open>
  \<open>basename(path, suffix)\<close> runs one loop from the last character to the first, with the
  variables \<open>start\<close>, \<open>end\<close>, \<open>matchedSlash\<close>, \<open>extIdx\<close> and \<open>firstNonSlashEnd\<close> of
  Node's code. The list argument of the loop holds the characters not yet visited, last
  one first, so that the index \<open>i\<close> of its head is the length of its tail.
  \<open>js_slice\<close> is \<open>slice(from, until)\<close> for indices that are not negative, as they
  are here.
\<close>

record basename_vars =
  bn_start :: int
  bn_end :: int
  bn_matchedSlash :: bool
  bn_extIdx :: int
  bn_firstNonSlashEnd :: int

fun basename_loop :: "string \<Rightarrow> string \<Rightarrow> basename_vars \<Rightarrow> basename_vars" where
  "basename_loop ext [] v = v"
| "basename_loop ext (code # earlier) v =
     (let i = int (length earlier) in
      if code = CHR ''/'' then
        (if \<not> bn_matchedSlash v then v\<lparr>bn_start := i + 1\<rparr>
         else basename_loop ext earlier v)
      else
        (let v1 = (if bn_firstNonSlashEnd v = - 1
                   then v\<lparr>bn_matchedSlash := False, bn_firstNonSlashEnd := i + 1\<rparr>
                   else v);
             v2 = (if bn_extIdx v1 \<ge> 0 then
                     (if code = ext ! nat (bn_extIdx v1) then
                        (if bn_extIdx v1 - 1 = - 1
                         then v1\<lparr>bn_extIdx := bn_extIdx v1 - 1, bn_end := i\<rparr>
                         else v1\<lparr>bn_extIdx := bn_extIdx v1 - 1\<rparr>)
                      else v1\<lparr>bn_extIdx := - 1, bn_end := bn_firstNonSlashEnd v1\<rparr>)
                   else v1)
         in basename_loop ext earlier v2))"

definition js_slice :: "string \<Rightarrow> int \<Rightarrow> int \<Rightarrow> string" where
  "js_slice s from until = take (nat until - nat from) (drop (nat from) s)"

definition posix_basename_ext :: "string \<Rightarrow> string \<Rightarrow> string" where
  "posix_basename_ext p ext =
     (if ext \<noteq> [] \<and> length ext \<le> length p then
        (if ext = p then []
         else
           (let v = basename_loop ext (rev p)
                      \<lparr>bn_start = 0, bn_end = - 1, bn_matchedSlash = True,
                       bn_extIdx = int (length ext) - 1, bn_firstNonSlashEnd = - 1\<rparr>;
                e = (if bn_start v = bn_end v then bn_firstNonSlashEnd v
                     else if bn_end v = - 1 then int (length p)
                     else bn_end v)
            in js_slice p (bn_start v) e))
      else posix_basename p)"

section \<open>The editor host\<close>

text \<open>
  The extension runs inside the editor and reaches everything through its API. The part
  of the host that the extension reads or changes is a record: the workspace folders, the
  active editor's document, the documents the host can open (by URI), the advisory
  markers (the diagnostic collection \<open>export_this\<close>), and the messages shown to the user.
  Each handler of the extension is a function from the host to the host it leaves behind,
  with the way it ended. One handler runs at a time.
\<close>

record uri =
  scheme :: string
  authority :: string
  path :: string

text \<open>
  The constructor of \<open>Uri\<close> resolves an empty or relative path of a \<open>file\<close>, \<open>http\<close> or
  \<open>https\<close> URI against the root. \<open>Uri.file\<close> reads a path that starts with two slashes
  as \<open>//authority/path\<close>. \<open>with({ path })\<close> returns the same URI when the path is the one it
  has, and builds a new one otherwise.
\<close>

definition referenceResolution :: "string \<Rightarrow> string \<Rightarrow> string" where
  "referenceResolution sch p =
     (if sch = ''https'' \<or> sch = ''http'' \<or> sch = ''file'' then
        (if p = [] then ''/'' else if hd p \<noteq> CHR ''/'' then CHR ''/'' # p else p)
      else p)"

definition Uri_file :: "string \<Rightarrow> uri" where
  "Uri_file p =
     (if length p \<ge> 2 \<and> p ! 0 = CHR ''/'' \<and> p ! 1 = CHR ''/'' then
        (let tail = drop 2 p; idx = js_indexOf tail ''/''
         in if idx = - 1
            then \<lparr>scheme = ''file'', authority = tail,
                  path = referenceResolution ''file'' ''/''\<rparr>
            else \<lparr>scheme = ''file'', authority = take (nat idx) tail,
                  path = referenceResolution ''file'' (drop (nat idx) tail)\<rparr>)
      else \<lparr>scheme = ''file'', authority = [], path = referenceResolution ''file'' p\<rparr>)"

definition Uri_with_path :: "uri \<Rightarrow> string \<Rightarrow> uri" where
  "Uri_with_path u p =
     (if p = path u then u else u\<lparr>path := referenceResolution (scheme u) p\<rparr>)"

text \<open>
  A text document has a URI, a file name and its content. Lines end at a line feed; the
  document always has at least one line.
\<close>

record text_document =
  uri :: uri
  fileName :: string
  getText :: string

definition text_lines :: "string \<Rightarrow> string list" where
  "text_lines txt = split_on (CHR 0x0A) txt"

definition lineCount :: "text_document \<Rightarrow> nat" where
  "lineCount doc = length (text_lines (getText doc))"

record position =
  line :: int
  character :: int

record text_range =
  range_start :: position
  range_end :: position

definition Range :: "int \<Rightarrow> int \<Rightarrow> int \<Rightarrow> int \<Rightarrow> text_range" where
  "Range startLine startCharacter endLine endCharacter =
     \<lparr>range_start = \<lparr>line = startLine, character = startCharacter\<rparr>,
      range_end = \<lparr>line = endLine, character = endCharacter\<rparr>\<rparr>"

datatype severity = Error | Warning | Information | Hint

record diagnostic =
  diag_range :: text_range
  message :: string
  severity :: severity
  diag_code :: string

datatype fs_entry = File string | Directory

datatype host_error = FileNotFound uri | CannotOpen uri | EditorFault string

datatype outcome = Returned | Threw host_error

record host =
  workspaceFolders :: "uri list"
  activeTextEditor :: "text_document option"
  files :: "uri \<rightharpoonup> fs_entry"
  editor_fault :: "string option"
  diagnostics :: "uri \<rightharpoonup> diagnostic list"
  messages :: "string list"
  console :: "host_error list"

text \<open>
  \<open>files\<close> gives, for a URI, what the host finds there: nothing, a directory, or a file
  with the content the host shows for it. \<open>workspace.fs.stat\<close> fails on nothing;
  \<open>workspace.openTextDocument\<close> fails unless there is a file; \<open>window.showTextDocument\<close>
  makes the document the active editor's, unless the host has a fault (\<open>editor_fault\<close>).
  An edit inserts at the position the host validates: a line past the last one is the end
  of the document, a character past the end of the line is the end of the line.
\<close>

definition showErrorMessage :: "string \<Rightarrow> host \<Rightarrow> host" where
  "showErrorMessage msg h = h\<lparr>messages := messages h @ [msg]\<rparr>"

definition console_error :: "host_error \<Rightarrow> host \<Rightarrow> host" where
  "console_error e h = h\<lparr>console := console h @ [e]\<rparr>"

definition fs_stat :: "host \<Rightarrow> uri \<Rightarrow> host_error + fs_entry" where
  "fs_stat h u = (case files h u of None \<Rightarrow> Inl (FileNotFound u) | Some e \<Rightarrow> Inr e)"

definition openTextDocument :: "host \<Rightarrow> uri \<Rightarrow> host_error + text_document" where
  "openTextDocument h u =
     (case files h u of
        Some (File txt) \<Rightarrow> Inr \<lparr>uri = u, fileName = path u, getText = txt\<rparr>
      | _ \<Rightarrow> Inl (CannotOpen u))"

definition showTextDocument :: "host \<Rightarrow> text_document \<Rightarrow> host_error + host" where
  "showTextDocument h doc =
     (case editor_fault h of
        Some why \<Rightarrow> Inl (EditorFault why)
      | None \<Rightarrow> Inr (h\<lparr>activeTextEditor := Some doc\<rparr>))"

definition offsetAt :: "string \<Rightarrow> position \<Rightarrow> nat" where
  "offsetAt txt pos =
     (let ls = text_lines txt; l = nat (line pos)
      in if l \<ge> length ls then length txt
         else length (join_sep [CHR 0x0A] (take l ls)) + (if l = 0 then 0 else 1)
              + min (nat (character pos)) (length (ls ! l)))"

definition edit_insert :: "text_document \<Rightarrow> position \<Rightarrow> string \<Rightarrow> host \<Rightarrow> host" where
  "edit_insert doc pos txt h =
     (let k = offsetAt (getText doc) pos;
          doc' = doc\<lparr>getText := take k (getText doc) @ txt @ drop k (getText doc)\<rparr>
      in h\<lparr>files := (files h)(uri doc \<mapsto> File (getText doc')),
            activeTextEditor :=
              (case activeTextEditor h of
                 None \<Rightarrow> None
               | Some d \<Rightarrow> if uri d = uri doc then Some doc' else Some d)\<rparr>)"

section \<open>The extension\<close>

definition COMMAND :: string where
  "COMMAND = ''export-this.command''"

definition EXPORT_THIS_MENTION :: string where
  "EXPORT_THIS_MENTION = ''export_this_mention''"

definition EXPORT :: string where
  "EXPORT = ''export''"

subsection \<open>\<open>findIndex\<close>\<close>

text \<open>
  The variables of the loop of \<open>findIndex\<close>. \<open>probes\<close> is not a variable of the source:
  it counts the runs of the loop body (one \<open>stat\<close> each), for the bound on the walk.
\<close>

record walk =
  indexUri :: uri
  indexPath :: string
  found :: bool
  iteration :: nat
  probes :: nat

function findIndex_loop :: "host \<Rightarrow> string \<Rightarrow> walk \<Rightarrow> walk" where
  "findIndex_loop h workspacePath w =
     (if \<not> found w \<and> iteration w < 100 then
        (let u = Uri_with_path (indexUri w) (indexPath w);
             w1 = w\<lparr>indexUri := u, probes := probes w + 1\<rparr>
         in case fs_stat h u of
              Inr st \<Rightarrow> findIndex_loop h workspacePath (w1\<lparr>found := True\<rparr>)
            | Inl err \<Rightarrow>
                (let p = posix_join [path u, ''..'', ''..'', ''index.ts''];
                     w2 = w1\<lparr>indexPath := p\<rparr>
                 in if js_indexOf p workspacePath = - 1 then w2
                    else findIndex_loop h workspacePath (w2\<lparr>iteration := iteration w2 + 1\<rparr>)))
      else w)"
  by pat_completeness auto
termination
  by (relation "measure (\<lambda>(h, workspacePath, w).
        2 * (100 - iteration w) + (if found w then 0 else 1))") auto

declare findIndex_loop.simps [simp del]

definition findIndex :: "host \<Rightarrow> uri option \<times> host" where
  "findIndex h =
     (case workspaceFolders h of
        [] \<Rightarrow> (None, showErrorMessage ''No folder/workspace open.'' h)
      | workspaceUri # others \<Rightarrow>
          (case activeTextEditor h of
             None \<Rightarrow> (None, showErrorMessage ''Error loading active file.'' h)
           | Some editor \<Rightarrow>
               (let filePath = uri editor;
                    p = posix_join [path filePath, ''..'', ''index.ts''];
                    w = findIndex_loop h (path workspaceUri)
                          \<lparr>indexUri = Uri_file p, indexPath = p, found = False,
                           iteration = 0, probes = 0\<rparr>
                in (Some (indexUri w), h))))"

subsection \<open>\<open>getRelativePath\<close>\<close>

definition getRelativePath :: "host \<Rightarrow> uri \<Rightarrow> string option" where
  "getRelativePath h indexUri' =
     (case activeTextEditor h of
        None \<Rightarrow> None
      | Some editor \<Rightarrow>
          (let filePath = uri editor;
               fileDir = posix_dirname (path filePath);
               fileName' = posix_basename_ext (path filePath) ''.ts'';
               indexDir = posix_dirname (path indexUri');
               relativePath = js_replace fileDir indexDir []
           in Some (relativePath @ ''/'' @ fileName')))"

subsection \<open>The export command\<close>

text \<open>
  The handler registered for \<open>COMMAND\<close>. \<open>openTextDocument\<close> is awaited before the
  \<open>try\<close> block, so its failure leaves the handler as an exception; a failure of
  \<open>showTextDocument\<close> is caught, logged and reported.
\<close>

definition exportText :: "string \<Rightarrow> string" where
  "exportText relPath = ''export * from '.'' @ relPath @ ''';''"

definition command_handler :: "host \<Rightarrow> outcome \<times> host" where
  "command_handler h =
     (case findIndex h of
        (None, h1) \<Rightarrow>
          (Returned, showErrorMessage ''Unable to find an index.ts file to export to'' h1)
      | (Some indexUri', h1) \<Rightarrow>
          (case getRelativePath h1 indexUri' of
             None \<Rightarrow> (Returned, showErrorMessage ''Unable to construct the relative path'' h1)
           | Some relPath \<Rightarrow>
               (case openTextDocument h1 indexUri' of
                  Inl err \<Rightarrow> (Threw err, h1)
                | Inr textDocument \<Rightarrow>
                    (case showTextDocument h1 textDocument of
                       Inl err \<Rightarrow>
                         (Returned,
                          showErrorMessage ''Error inserting export snippet.''
                            (console_error err h1))
                     | Inr h2 \<Rightarrow>
                         (Returned,
                          edit_insert textDocument
                            \<lparr>line = int (lineCount textDocument), character = 0\<rparr>
                            (exportText relPath) h2)))))"

subsection \<open>\<open>refreshDiagnostics\<close>\<close>

text \<open>
  The loop over the lines of the document ends in one of three ways: it reaches the last
  line with the markers collected, it returns from the function early, or an awaited call
  throws.
\<close>

datatype scan_exit = Completed "diagnostic list" | EarlyReturn | Raised host_error

fun refresh_loop ::
  "string list \<Rightarrow> nat \<Rightarrow> diagnostic list \<Rightarrow> host \<Rightarrow> scan_exit \<times> host" where
  "refresh_loop [] lineIndex diags h = (Completed diags, h)"
| "refresh_loop (lineOfText # following) lineIndex diags h =
     (if js_includes lineOfText EXPORT then
        (let index = js_indexOf lineOfText EXPORT in
         case findIndex h of
           (None, h1) \<Rightarrow> (EarlyReturn, h1)
         | (Some indexUri', h1) \<Rightarrow>
             (case getRelativePath h1 indexUri' of
                None \<Rightarrow> (EarlyReturn, h1)
              | Some relPath \<Rightarrow>
                  (case openTextDocument h1 indexUri' of
                     Inl err \<Rightarrow> (Raised err, h1)
                   | Inr textDocument \<Rightarrow>
                       (if js_indexOf (getText textDocument) relPath = - 1 then
                          refresh_loop following (lineIndex + 1)
                            (diags @
                             [\<lparr>diag_range =
                                 Range (int lineIndex) index (int lineIndex)
                                   (index + int (length EXPORT)),
                               message = ''Export file'', severity = Hint,
                               diag_code = EXPORT_THIS_MENTION\<rparr>])
                            h1
                        else refresh_loop following (lineIndex + 1) diags h1))))
      else refresh_loop following (lineIndex + 1) diags h)"

definition refreshDiagnostics :: "text_document \<Rightarrow> host \<Rightarrow> outcome \<times> host" where
  "refreshDiagnostics doc h =
     (let fileUri = Uri_file (fileName doc);
          fileName' = posix_basename (path fileUri)
      in if fileName' = ''index.ts'' then (Returned, h)
         else
           (case refresh_loop (text_lines (getText doc)) 0 [] h of
              (Completed diags, h1) \<Rightarrow>
                (Returned, h1\<lparr>diagnostics := (diagnostics h1)(uri doc \<mapsto> diags)\<rparr>)
            | (EarlyReturn, h1) \<Rightarrow> (Returned, h1)
            | (Raised err, h1) \<Rightarrow> (Threw err, h1)))"

subsection \<open>\<open>subscribeToDocumentChanges\<close>\<close>

text \<open>
  \<open>activate\<close> creates the diagnostic collection, empty, and scans the active editor's
  document if there is one. The three listeners are the handlers of a change of the active
  editor (which may be \<open>undefined\<close>), of a change of a document's text, and of the closing
  of a document.
\<close>

definition subscribeToDocumentChanges :: "host \<Rightarrow> outcome \<times> host" where
  "subscribeToDocumentChanges h =
     (case activeTextEditor h of
        None \<Rightarrow> (Returned, h)
      | Some doc \<Rightarrow> refreshDiagnostics doc h)"

definition activate :: "host \<Rightarrow> outcome \<times> host" where
  "activate h = subscribeToDocumentChanges (h\<lparr>diagnostics := Map.empty\<rparr>)"

definition onDidChangeActiveTextEditor :: "text_document option \<Rightarrow> host \<Rightarrow> outcome \<times> host" where
  "onDidChangeActiveTextEditor editor h =
     (case editor of None \<Rightarrow> (Returned, h) | Some doc \<Rightarrow> refreshDiagnostics doc h)"

definition onDidChangeTextDocument :: "text_document \<Rightarrow> host \<Rightarrow> outcome \<times> host" where
  "onDidChangeTextDocument doc h = refreshDiagnostics doc h"

definition onDidCloseTextDocument :: "text_document \<Rightarrow> host \<Rightarrow> host" where
  "onDidCloseTextDocument doc h = h\<lparr>diagnostics := (diagnostics h)(uri doc := None)\<rparr>"

section \<open>Paths as lists of components\<close>

text \<open>
  To state where the walk of \<open>findIndex\<close> goes, an absolute path in normal form is
  written as the list of its components: \<open>abs_path [''ws'', ''a'', ''Foo.ts'']\<close> is
  \<open>/ws/a/Foo.ts\<close>. A component is a non-empty string without a slash, other than \<open>.\<close>
  and \<open>..\<close>. \<open>root_path\<close> is the path of a directory, the root included.
  \<open>barrel_at dirs j\<close> is the path of the \<open>index.ts\<close> in the directory \<open>j\<close> levels above
  the directory \<open>dirs\<close> (in \<open>dirs\<close> itself for \<open>j = 0\<close>).
\<close>

definition seg_ok :: "string \<Rightarrow> bool" where
  "seg_ok c = (c \<noteq> [] \<and> CHR ''/'' \<notin> set c \<and> c \<noteq> ''.'' \<and> c \<noteq> ''..'')"

definition abs_path :: "string list \<Rightarrow> string" where
  "abs_path cs = concat (map (\<lambda>c. CHR ''/'' # c) cs)"

definition root_path :: "string list \<Rightarrow> string" where
  "root_path cs = (if cs = [] then ''/'' else abs_path cs)"

definition barrel_at :: "string list \<Rightarrow> nat \<Rightarrow> string" where
  "barrel_at dirs j = abs_path (take (length dirs - j) dirs @ [''index.ts''])"

section \<open>Example hosts\<close>

text \<open>
  The workspace of the specification's example: root \<open>/ws\<close>, the active file
  \<open>/ws/a/b/Foo.ts\<close> with the line \<open>export class Foo {}\<close>, and one barrel file,
  \<open>/ws/a/index.ts\<close>.
\<close>

definition foo_doc :: text_document where
  "foo_doc = \<lparr>uri = Uri_file ''/ws/a/b/Foo.ts'', fileName = ''/ws/a/b/Foo.ts'',
              getText = ''export class Foo {}''\<rparr>"

definition example_host :: host where
  "example_host =
     \<lparr>workspaceFolders = [Uri_file ''/ws''],
      activeTextEditor = Some foo_doc,
      files = [Uri_file ''/ws/a/index.ts'' \<mapsto> File ''export * from './x';'',
               Uri_file ''/ws/a/b/Foo.ts'' \<mapsto> File ''export class Foo {}''],
      editor_fault = None, diagnostics = Map.empty, messages = [], console = []\<rparr>"

text \<open>
  A deep tree: root \<open>/w\<close>, a barrel file \<open>/w/r/index.ts\<close>, and the active file
  one hundred directories \<open>d\<close> below \<open>/w/r\<close>.
\<close>

definition deep_file :: string where
  "deep_file = abs_path ([''w'', ''r''] @ replicate 100 ''d'' @ [''F.ts''])"

definition deep_host :: host where
  "deep_host =
     \<lparr>workspaceFolders = [Uri_file ''/w''],
      activeTextEditor = Some \<lparr>uri = Uri_file deep_file, fileName = deep_file,
                               getText = ''export class F {}''\<rparr>,
      files = [Uri_file ''/w/r/index.ts'' \<mapsto> File []],
      editor_fault = None, diagnostics = Map.empty, messages = [], console = []\<rparr>"

text \<open>
  The same workspace without any \<open>index.ts\<close>.
\<close>

definition no_barrel_host :: host where
  "no_barrel_host =
     \<lparr>workspaceFolders = [Uri_file ''/ws''],
      activeTextEditor = Some foo_doc,
      files = [Uri_file ''/ws/a/b/Foo.ts'' \<mapsto> File ''export class Foo {}''],
      editor_fault = None, diagnostics = Map.empty, messages = [], console = []\<rparr>"

text \<open>
  The example workspace after the export: the barrel file names \<open>./b/Foo\<close>. A second
  file, \<open>/ws/x/Bar.ts\<close>, has a barrel file of its own, \<open>/ws/x/index.ts\<close>, which is empty.
\<close>

definition bar_doc :: text_document where
  "bar_doc = \<lparr>uri = Uri_file ''/ws/x/Bar.ts'', fileName = ''/ws/x/Bar.ts'',
              getText = ''export class Bar {}''\<rparr>"

definition exported_host :: host where
  "exported_host =
     \<lparr>workspaceFolders = [Uri_file ''/ws''],
      activeTextEditor = Some foo_doc,
      files = [Uri_file ''/ws/a/index.ts'' \<mapsto> File ''export * from './b/Foo';'',
               Uri_file ''/ws/x/index.ts'' \<mapsto> File []],
      editor_fault = None, diagnostics = Map.empty, messages = [], console = []\<rparr>"

text \<open>
  A third file of the example workspace, \<open>/ws/a/b/Baz.ts\<close>, with three lines, two of
  which contain \<open>export\<close>; and the barrel file \<open>/ws/a/index.ts\<close> as a document.
\<close>

definition baz_doc :: text_document where
  "baz_doc = \<lparr>uri = Uri_file ''/ws/a/b/Baz.ts'', fileName = ''/ws/a/b/Baz.ts'',
              getText = ''  export class Baz {}'' @ [CHR 0x0A] @ ''// none'' @ [CHR 0x0A]
                        @ ''const reexport = export_all;''\<rparr>"

definition index_doc :: text_document where
  "index_doc = \<lparr>uri = Uri_file ''/ws/a/index.ts'', fileName = ''/ws/a/index.ts'',
                getText = ''export * from './x';''\<rparr>"

text \<open>
  The example workspace with a barrel file that ends with a line break.
\<close>

definition newline_host :: host where
  "newline_host =
     \<lparr>workspaceFolders = [Uri_file ''/ws''],
      activeTextEditor = Some foo_doc,
      files = [Uri_file ''/ws/a/index.ts'' \<mapsto> File (''export * from './x';'' @ [CHR 0x0A])],
      editor_fault = None, diagnostics = Map.empty, messages = [], console = []\<rparr>"

section \<open>The markers the specification asks for\<close>

text \<open>
  The specification's marker for a line: a hint with the fixed message and code, from the
  column where \<open>export\<close> starts to the column where it ends. \<open>spec_markers\<close> follows the
  specification's words: one marker for each line that contains \<open>export\<close>, in the order of
  the lines. \<open>first_occurrence_at t s i\<close> says that \<open>t\<close> occurs in \<open>s\<close> at index \<open>i\<close> and
  at no smaller index.
\<close>

definition hint_marker :: "nat \<Rightarrow> int \<Rightarrow> diagnostic" where
  "hint_marker lineIndex column =
     \<lparr>diag_range = Range (int lineIndex) column (int lineIndex) (column + 6),
      message = ''Export file'', severity = Hint, diag_code = ''export_this_mention''\<rparr>"

definition spec_markers :: "string list \<Rightarrow> diagnostic list" where
  "spec_markers ls =
     map (\<lambda>(i, l). hint_marker i (js_indexOf l ''export''))
       (filter (\<lambda>(i, l). sublist ''export'' l) (enumerate 0 ls))"

definition occurs_at :: "string \<Rightarrow> string \<Rightarrow> nat \<Rightarrow> bool" where
  "occurs_at t s i = prefix t (drop i s)"

definition first_occurrence_at :: "string \<Rightarrow> string \<Rightarrow> nat \<Rightarrow> bool" where
  "first_occurrence_at t s i = (occurs_at t s i \<and> list_all (\<lambda>j. \<not> occurs_at t s j) [0..<i])"

text \<open>
  A host in which no folder is open, while the collection still holds a marker for
  \<open>/ws/a/b/Foo.ts\<close> on its eighth line (the document has one line).
\<close>

definition stale_marker :: diagnostic where
  "stale_marker = hint_marker 7 0"

definition stale_host :: host where
  "stale_host =
     \<lparr>workspaceFolders = [],
      activeTextEditor = Some foo_doc,
      files = [Uri_file ''/ws/a/b/Foo.ts'' \<mapsto> File ''export class Foo {}''],
      editor_fault = None, diagnostics = [uri foo_doc \<mapsto> [stale_marker]],
      messages = [], console = []\<rparr>"

section \<open>Facts about \<open>indexOf\<close>\<close>

lemma js_indexOf_ge: "- 1 \<le> js_indexOf s t"
  by (induction s) (auto simp: Let_def)

lemma js_indexOf_sublist: "js_indexOf s t \<noteq> - 1 \<longleftrightarrow> sublist t s"
proof (induction s)
  case Nil
  then show ?case by simp
next
  case (Cons c s)
  then show ?case
    using js_indexOf_ge [of s t] by (auto simp: Let_def sublist_Cons_right)
qed

lemma js_includes_sublist: "js_includes s t \<longleftrightarrow> sublist t s"
  by (simp add: js_includes_def js_indexOf_sublist)

lemma list_all_upt_Suc:
  "list_all P [0..<Suc n] \<longleftrightarrow> P 0 \<and> list_all (\<lambda>j. P (Suc j)) [0..<n]"
proof -
  have "[0..<Suc n] = 0 # map Suc [0..<n]"
    by (simp add: upt_conv_Cons map_Suc_upt del: upt_Suc)
  then show ?thesis by (simp add: list.pred_map comp_def del: upt_Suc)
qed

lemma js_indexOf_first:
  "js_indexOf s t \<noteq> - 1 \<Longrightarrow> first_occurrence_at t s (nat (js_indexOf s t))"
proof (induction s)
  case Nil
  then show ?case by (simp add: first_occurrence_at_def occurs_at_def split: if_splits)
next
  case (Cons c s)
  show ?case
  proof (cases "prefix t (c # s)")
    case True
    then show ?thesis by (simp add: first_occurrence_at_def occurs_at_def)
  next
    case False
    with Cons.prems have r: "js_indexOf s t \<noteq> - 1"
      by (auto simp: Let_def split: if_splits)
    have ge: "0 \<le> js_indexOf s t" using r js_indexOf_ge [of s t] by simp
    then have n: "nat (js_indexOf s t + 1) = Suc (nat (js_indexOf s t))" by simp
    from Cons.IH [OF r] False r show ?thesis
      by (simp add: first_occurrence_at_def occurs_at_def Let_def n list_all_upt_Suc
               del: upt_Suc)
  qed
qed

section \<open>Normal-form paths under \<open>posix.join\<close>\<close>

lemma split_on_nosep: "sep \<notin> set s \<Longrightarrow> split_on sep s = [s]"
  by (induction s) auto

lemma split_on_append:
  "sep \<notin> set s \<Longrightarrow> split_on sep (s @ sep # t) = s # split_on sep t"
  by (induction s) auto

lemma abs_path_Nil [simp]: "abs_path [] = []"
  by (simp add: abs_path_def)

lemma abs_path_Cons [simp]: "abs_path (c # cs) = CHR ''/'' # c @ abs_path cs"
  by (simp add: abs_path_def)

lemma abs_path_append [simp]: "abs_path (xs @ ys) = abs_path xs @ abs_path ys"
  by (simp add: abs_path_def)

lemma split_on_seg_abs_path:
  "CHR ''/'' \<notin> set c \<Longrightarrow> list_all (\<lambda>c. CHR ''/'' \<notin> set c) cs \<Longrightarrow>
   split_on (CHR ''/'') (c @ abs_path cs) = c # cs"
proof (induction cs arbitrary: c)
  case Nil
  then show ?case by (simp add: split_on_nosep)
next
  case (Cons d ds)
  then show ?case by (simp add: split_on_append)
qed

lemma split_on_abs_path:
  "list_all (\<lambda>c. CHR ''/'' \<notin> set c) cs \<Longrightarrow> cs \<noteq> [] \<Longrightarrow>
   split_on (CHR ''/'') (abs_path cs) = [] # cs"
  by (cases cs) (simp_all add: split_on_seg_abs_path)

lemma join_sep_abs_path:
  "cs \<noteq> [] \<Longrightarrow> CHR ''/'' # join_sep ''/'' cs = abs_path cs"
  by (induction "''/''" cs rule: join_sep.induct) auto

lemma join_sep_nonempty: "cs \<noteq> [] \<Longrightarrow> last cs \<noteq> [] \<Longrightarrow> join_sep sep cs \<noteq> []"
  by (induction sep cs rule: join_sep.induct) auto

lemma normalizeString_append:
  "list_all seg_ok xs \<Longrightarrow>
   normalizeString a res (xs @ ys) = normalizeString a (res @ xs) ys"
  by (induction xs arbitrary: res) (auto simp: seg_ok_def)

lemma abs_path_eq_Nil [simp]: "abs_path cs = [] \<longleftrightarrow> cs = []"
  by (cases cs) simp_all

lemma last_abs_path:
  "cs \<noteq> [] \<Longrightarrow> last cs \<noteq> [] \<Longrightarrow> last (abs_path cs) = last (last cs)"
  by (induction cs) auto

lemma posix_normalize_abs_path:
  assumes "list_all (\<lambda>c. CHR ''/'' \<notin> set c) ss" "ss \<noteq> []" "last ss \<noteq> []"
      and "normalizeString False [] ss = r" "r \<noteq> []" "last r \<noteq> []"
  shows "posix_normalize (abs_path ss) = abs_path r"
proof -
  obtain c cs where ss: "ss = c # cs" using assms(2) by (cases ss) auto
  have ne: "abs_path ss \<noteq> []" and hd: "hd (abs_path ss) = CHR ''/''"
    by (simp_all add: ss)
  have "last ss \<in> set ss" using assms(2) by simp
  then have "CHR ''/'' \<notin> set (last ss)" using assms(1) by (auto simp: list_all_iff)
  moreover have "last (last ss) \<in> set (last ss)" using assms(3) by simp
  ultimately have "last (last ss) \<noteq> CHR ''/''" by auto
  then have nl: "last (abs_path ss) \<noteq> CHR ''/''"
    using last_abs_path [OF assms(2,3)] by simp
  have sp: "split_on (CHR ''/'') (abs_path ss) = [] # ss"
    by (rule split_on_abs_path [OF assms(1,2)])
  have q: "join_sep ''/'' r \<noteq> []" by (rule join_sep_nonempty [OF assms(5,6)])
  show ?thesis
    using ne hd nl q assms(4) join_sep_abs_path [OF assms(5)]
    by (simp add: posix_normalize_def sp Let_def)
qed

lemma seg_ok_index [simp]: "seg_ok ''index.ts''"
  by (simp add: seg_ok_def)

lemma seg_ok_noslash: "list_all seg_ok cs \<Longrightarrow> list_all (\<lambda>c. CHR ''/'' \<notin> set c) cs"
  by (induction cs) (auto simp: seg_ok_def)

lemma posix_join_first:
  assumes "list_all seg_ok (cs @ [f])"
  shows "posix_join [abs_path (cs @ [f]), ''..'', ''index.ts''] = abs_path (cs @ [''index.ts''])"
proof -
  let ?ss = "cs @ [f, ''..'', ''index.ts'']"
  have ok: "list_all seg_ok cs" "seg_ok f" using assms by simp_all
  have j: "join_sep ''/'' [abs_path (cs @ [f]), ''..'', ''index.ts''] = abs_path ?ss"
    by simp
  have ns: "list_all (\<lambda>c. CHR ''/'' \<notin> set c) ?ss"
    using seg_ok_noslash [OF ok(1)] ok(2) by (simp add: seg_ok_def)
  have n: "normalizeString False [] ?ss = cs @ [''index.ts'']"
    using normalizeString_append [OF assms, of False "[]" "[''..'', ''index.ts'']"] ok(2)
    by (simp add: seg_ok_def)
  have "posix_normalize (abs_path ?ss) = abs_path (cs @ [''index.ts''])"
    by (rule posix_normalize_abs_path [OF ns _ _ n]) simp_all
  then show ?thesis
    unfolding posix_join_def Let_def using j by simp
qed

lemma posix_join_up:
  assumes "list_all seg_ok (cs @ [d])"
  shows "posix_join [abs_path (cs @ [d, ''index.ts'']), ''..'', ''..'', ''index.ts'']
         = abs_path (cs @ [''index.ts''])"
proof -
  let ?ss = "cs @ [d, ''index.ts'', ''..'', ''..'', ''index.ts'']"
  have ok: "list_all seg_ok cs" "seg_ok d" using assms by simp_all
  have j: "join_sep ''/'' [abs_path (cs @ [d, ''index.ts'']), ''..'', ''..'', ''index.ts'']
           = abs_path ?ss"
    by simp
  have ns: "list_all (\<lambda>c. CHR ''/'' \<notin> set c) ?ss"
    using seg_ok_noslash [OF ok(1)] ok(2) by (simp add: seg_ok_def)
  have "list_all seg_ok (cs @ [d, ''index.ts''])" using assms by simp
  from normalizeString_append [OF this, of False "[]" "[''..'', ''..'', ''index.ts'']"] ok(2)
  have n: "normalizeString False [] ?ss = cs @ [''index.ts'']"
    by (simp add: seg_ok_def butlast_append)
  have "posix_normalize (abs_path ?ss) = abs_path (cs @ [''index.ts''])"
    by (rule posix_normalize_abs_path [OF ns _ _ n]) simp_all
  then show ?thesis
    unfolding posix_join_def Let_def using j by simp
qed

lemma js_indexOf_prefix: "prefix t s \<Longrightarrow> js_indexOf s t = 0"
  by (cases s) auto

lemma Uri_file_abs_path:
  assumes "seg_ok c"
  shows "Uri_file (abs_path (c # cs)) =
         \<lparr>scheme = ''file'', authority = [], path = abs_path (c # cs)\<rparr>"
proof -
  obtain a as where c: "c = a # as" "a \<noteq> CHR ''/''"
    using assms by (cases c) (auto simp: seg_ok_def)
  show ?thesis by (simp add: Uri_file_def referenceResolution_def c)
qed

lemma Uri_with_path_file:
  "scheme u = ''file'' \<Longrightarrow> authority u = [] \<Longrightarrow> p \<noteq> [] \<Longrightarrow> hd p = CHR ''/'' \<Longrightarrow>
   Uri_with_path u p = \<lparr>scheme = ''file'', authority = [], path = p\<rparr>"
  by (cases u) (auto simp: Uri_with_path_def referenceResolution_def)

lemma prefix_barrel:
  "prefix wp (abs_path B @ ''/'') \<Longrightarrow> prefix wp (abs_path (B @ ys @ [''index.ts'']))"
proof -
  assume "prefix wp (abs_path B @ ''/'')"
  moreover have "prefix (abs_path B @ ''/'') (abs_path (B @ ys @ [''index.ts'']))"
    by (cases ys) simp_all
  ultimately show ?thesis by (rule prefix_order.trans)
qed

section \<open>The loop of \<open>findIndex\<close>, one step at a time\<close>

lemma findIndex_loop_stop:
  "found w \<or> \<not> iteration w < 100 \<Longrightarrow> findIndex_loop h wp w = w"
  by (subst findIndex_loop.simps) auto

lemma findIndex_loop_found:
  "\<not> found w \<Longrightarrow> iteration w < 100 \<Longrightarrow>
   fs_stat h (Uri_with_path (indexUri w) (indexPath w)) = Inr st \<Longrightarrow>
   findIndex_loop h wp w =
     w\<lparr>indexUri := Uri_with_path (indexUri w) (indexPath w), probes := probes w + 1,
       found := True\<rparr>"
  by (subst findIndex_loop.simps) (simp add: Let_def findIndex_loop_stop)

lemma findIndex_loop_break:
  "\<not> found w \<Longrightarrow> iteration w < 100 \<Longrightarrow>
   fs_stat h (Uri_with_path (indexUri w) (indexPath w)) = Inl err \<Longrightarrow>
   js_indexOf (posix_join [path (Uri_with_path (indexUri w) (indexPath w)), ''..'', ''..'', ''index.ts'']) wp = - 1 \<Longrightarrow>
   findIndex_loop h wp w =
     w\<lparr>indexUri := Uri_with_path (indexUri w) (indexPath w), probes := probes w + 1,
       indexPath := posix_join [path (Uri_with_path (indexUri w) (indexPath w)), ''..'', ''..'', ''index.ts'']\<rparr>"
  by (subst findIndex_loop.simps) (simp add: Let_def)

lemma findIndex_loop_continue:
  "\<not> found w \<Longrightarrow> iteration w < 100 \<Longrightarrow>
   fs_stat h (Uri_with_path (indexUri w) (indexPath w)) = Inl err \<Longrightarrow>
   js_indexOf (posix_join [path (Uri_with_path (indexUri w) (indexPath w)), ''..'', ''..'', ''index.ts'']) wp \<noteq> - 1 \<Longrightarrow>
   findIndex_loop h wp w =
     findIndex_loop h wp
      (w\<lparr>indexUri := Uri_with_path (indexUri w) (indexPath w), probes := probes w + 1,
         indexPath := posix_join [path (Uri_with_path (indexUri w) (indexPath w)), ''..'', ''..'', ''index.ts''],
         iteration := iteration w + 1\<rparr>)"
  by (subst findIndex_loop.simps) (simp add: Let_def)

lemma findIndex_loop_probes:
  "probes (findIndex_loop h wp w) \<le> probes w + (if found w then 0 else 100 - iteration w)"
proof (induction "100 - iteration w" arbitrary: w)
  case 0
  then show ?case by (simp add: findIndex_loop_stop)
next
  case (Suc n)
  show ?case
  proof (cases "found w")
    case True
    then show ?thesis by (simp add: findIndex_loop_stop)
  next
    case False
    from Suc.hyps have lt: "iteration w < 100" by simp
    let ?u = "Uri_with_path (indexUri w) (indexPath w)"
    let ?p = "posix_join [path ?u, ''..'', ''..'', ''index.ts'']"
    show ?thesis
    proof (cases "fs_stat h ?u")
      case (Inr st)
      with False lt show ?thesis by (simp add: findIndex_loop_found)
    next
      case (Inl err)
      show ?thesis
      proof (cases "js_indexOf ?p wp = - 1")
        case True
        with False lt Inl show ?thesis by (simp add: findIndex_loop_break)
      next
        case nb: False
        let ?w' = "w\<lparr>indexUri := ?u, probes := probes w + 1, indexPath := ?p,
                      iteration := iteration w + 1\<rparr>"
        have "n = 100 - iteration ?w'" using Suc.hyps by simp
        from Suc.hyps(1)[OF this] False lt
        have "probes (findIndex_loop h wp ?w') \<le> probes w + (100 - iteration w)" by simp
        with False lt Inl nb show ?thesis by (simp add: findIndex_loop_continue)
      qed
    qed
  qed
qed

lemma loop_found_rec:
  "it < 100 \<Longrightarrow> fs_stat h (Uri_with_path u p) = Inr st \<Longrightarrow>
   findIndex_loop h wp \<lparr>indexUri = u, indexPath = p, found = False, iteration = it, probes = pr\<rparr>
   = \<lparr>indexUri = Uri_with_path u p, indexPath = p, found = True, iteration = it,
      probes = pr + 1\<rparr>"
  by (subst findIndex_loop.simps) (simp add: Let_def findIndex_loop_stop)

lemma loop_continue_rec:
  "it < 100 \<Longrightarrow> fs_stat h (Uri_with_path u p) = Inl err \<Longrightarrow>
   posix_join [path (Uri_with_path u p), ''..'', ''..'', ''index.ts''] = q \<Longrightarrow>
   js_indexOf q wp \<noteq> - 1 \<Longrightarrow>
   findIndex_loop h wp \<lparr>indexUri = u, indexPath = p, found = False, iteration = it, probes = pr\<rparr>
   = findIndex_loop h wp
       \<lparr>indexUri = Uri_with_path u p, indexPath = q, found = False, iteration = it + 1,
        probes = pr + 1\<rparr>"
  by (subst findIndex_loop.simps) (simp add: Let_def)

lemma findIndex_loop_climb_found:
  assumes "list_all seg_ok (B @ xs)"
      and "files h \<lparr>scheme = ''file'', authority = [], path = abs_path (B @ [''index.ts''])\<rparr> = Some e"
      and "\<forall>n<length xs. files h \<lparr>scheme = ''file'', authority = [],
              path = abs_path (B @ take (Suc n) xs @ [''index.ts''])\<rparr> = None"
      and "prefix wp (abs_path B @ ''/'')"
      and "scheme u = ''file''" "authority u = []"
      and "it + length xs < 100"
  shows "findIndex_loop h wp
           \<lparr>indexUri = u, indexPath = abs_path (B @ xs @ [''index.ts'']), found = False,
            iteration = it, probes = pr\<rparr>
         = \<lparr>indexUri = \<lparr>scheme = ''file'', authority = [], path = abs_path (B @ [''index.ts''])\<rparr>,
            indexPath = abs_path (B @ [''index.ts'']), found = True,
            iteration = it + length xs, probes = pr + length xs + 1\<rparr>"
  using assms
proof (induction xs arbitrary: u it pr rule: rev_induct)
  case Nil
  let ?p = "abs_path (B @ [''index.ts''])"
  have u: "Uri_with_path u ?p = \<lparr>scheme = ''file'', authority = [], path = ?p\<rparr>"
    using Nil.prems(5,6) by (intro Uri_with_path_file) (cases B; simp)+
  have st: "fs_stat h (Uri_with_path u ?p) = Inr e"
    unfolding u fs_stat_def using Nil.prems(2) by simp
  have lt: "it < 100" using Nil.prems(7) by simp
  show ?case
    using loop_found_rec [OF lt st, of wp pr] unfolding u by simp
next
  case (snoc x ys)
  let ?p = "abs_path (B @ ys @ [x, ''index.ts''])"
  let ?q = "abs_path (B @ ys @ [''index.ts''])"
  let ?u = "\<lparr>scheme = ''file'', authority = [], path = ?p\<rparr>"
  have u: "Uri_with_path u ?p = ?u"
    using snoc.prems(5,6) by (intro Uri_with_path_file) (cases B; cases ys; simp)+
  have "files h ?u = None"
    using snoc.prems(3) [rule_format, of "length ys"] by simp
  then have st: "fs_stat h (Uri_with_path u ?p) = Inl (FileNotFound ?u)"
    unfolding u fs_stat_def by simp
  have ok: "list_all seg_ok ((B @ ys) @ [x])" using snoc.prems(1) by simp
  have up: "posix_join [path (Uri_with_path u ?p), ''..'', ''..'', ''index.ts''] = ?q"
    unfolding u using posix_join_up [OF ok] by simp
  have "prefix wp ?q" by (rule prefix_barrel [OF snoc.prems(4)])
  then have ix: "js_indexOf ?q wp \<noteq> - 1" by (simp add: js_indexOf_prefix)
  have lt: "it < 100" using snoc.prems(7) by simp
  have step: "findIndex_loop h wp
      \<lparr>indexUri = u, indexPath = ?p, found = False, iteration = it, probes = pr\<rparr>
      = findIndex_loop h wp
      \<lparr>indexUri = ?u, indexPath = ?q, found = False, iteration = it + 1, probes = pr + 1\<rparr>"
    using loop_continue_rec [OF lt st up ix, of pr] unfolding u .
  have ih: "findIndex_loop h wp
      \<lparr>indexUri = ?u, indexPath = ?q, found = False, iteration = it + 1, probes = pr + 1\<rparr>
      = \<lparr>indexUri = \<lparr>scheme = ''file'', authority = [], path = abs_path (B @ [''index.ts''])\<rparr>,
            indexPath = abs_path (B @ [''index.ts'']), found = True,
            iteration = (it + 1) + length ys, probes = (pr + 1) + length ys + 1\<rparr>"
  proof (rule snoc.IH)
    show "list_all seg_ok (B @ ys)" using snoc.prems(1) by simp
    show "files h \<lparr>scheme = ''file'', authority = [], path = abs_path (B @ [''index.ts''])\<rparr> = Some e"
      by (rule snoc.prems(2))
    show "\<forall>n<length ys. files h \<lparr>scheme = ''file'', authority = [],
              path = abs_path (B @ take (Suc n) ys @ [''index.ts''])\<rparr> = None"
    proof (intro allI impI)
      fix n assume n: "n < length ys"
      then have "n < length (ys @ [x])" by simp
      from snoc.prems(3) [rule_format, OF this] n show "files h \<lparr>scheme = ''file'', authority = [],
              path = abs_path (B @ take (Suc n) ys @ [''index.ts''])\<rparr> = None" by simp
    qed
    show "prefix wp (abs_path B @ ''/'')" by (rule snoc.prems(4))
    show "it + 1 + length ys < 100" using snoc.prems(7) by simp
  qed simp_all
  have "B @ (ys @ [x]) @ [''index.ts''] = B @ ys @ [x, ''index.ts'']" by simp
  then show ?case using step ih by (simp del: abs_path_append abs_path_Cons)
qed

lemma findIndex_loop_climb_cap:
  assumes "xs \<noteq> []" "list_all seg_ok (B @ xs)"
      and "\<forall>n<length xs. files h \<lparr>scheme = ''file'', authority = [],
              path = abs_path (B @ take (Suc n) xs @ [''index.ts''])\<rparr> = None"
      and "prefix wp (abs_path B @ ''/'')"
      and "scheme u = ''file''" "authority u = []"
      and "it + length xs = 100"
  shows "findIndex_loop h wp
           \<lparr>indexUri = u, indexPath = abs_path (B @ xs @ [''index.ts'']), found = False,
            iteration = it, probes = pr\<rparr>
         = \<lparr>indexUri = \<lparr>scheme = ''file'', authority = [],
                         path = abs_path (B @ [hd xs, ''index.ts''])\<rparr>,
            indexPath = abs_path (B @ [''index.ts'']), found = False,
            iteration = 100, probes = pr + length xs\<rparr>"
  using assms
proof (induction xs arbitrary: u it pr rule: rev_induct)
  case Nil
  then show ?case by simp
next
  case (snoc x ys)
  let ?p = "abs_path (B @ ys @ [x, ''index.ts''])"
  let ?q = "abs_path (B @ ys @ [''index.ts''])"
  let ?u = "\<lparr>scheme = ''file'', authority = [], path = ?p\<rparr>"
  have u: "Uri_with_path u ?p = ?u"
    using snoc.prems(5,6) by (intro Uri_with_path_file) (cases B; cases ys; simp)+
  have "files h ?u = None"
    using snoc.prems(3) [rule_format, of "length ys"] by simp
  then have st: "fs_stat h (Uri_with_path u ?p) = Inl (FileNotFound ?u)"
    unfolding u fs_stat_def by simp
  have ok: "list_all seg_ok ((B @ ys) @ [x])" using snoc.prems(2) by simp
  have up: "posix_join [path (Uri_with_path u ?p), ''..'', ''..'', ''index.ts''] = ?q"
    unfolding u using posix_join_up [OF ok] by simp
  have "prefix wp ?q" by (rule prefix_barrel [OF snoc.prems(4)])
  then have ix: "js_indexOf ?q wp \<noteq> - 1" by (simp add: js_indexOf_prefix)
  have lt: "it < 100" using snoc.prems(7) by simp
  have step: "findIndex_loop h wp
      \<lparr>indexUri = u, indexPath = ?p, found = False, iteration = it, probes = pr\<rparr>
      = findIndex_loop h wp
      \<lparr>indexUri = ?u, indexPath = ?q, found = False, iteration = it + 1, probes = pr + 1\<rparr>"
    using loop_continue_rec [OF lt st up ix, of pr] unfolding u .
  have eq: "B @ (ys @ [x]) @ [''index.ts''] = B @ ys @ [x, ''index.ts'']" by simp
  show ?case
  proof (cases "ys = []")
    case True
    then have "it + 1 = 100" using snoc.prems(7) by simp
    then have "findIndex_loop h wp
      \<lparr>indexUri = ?u, indexPath = ?q, found = False, iteration = it + 1, probes = pr + 1\<rparr>
      = \<lparr>indexUri = ?u, indexPath = ?q, found = False, iteration = it + 1, probes = pr + 1\<rparr>"
      by (intro findIndex_loop_stop) simp
    with step True \<open>it + 1 = 100\<close> show ?thesis
      by (simp del: abs_path_append abs_path_Cons)
  next
    case False
    have ih: "findIndex_loop h wp
      \<lparr>indexUri = ?u, indexPath = ?q, found = False, iteration = it + 1, probes = pr + 1\<rparr>
      = \<lparr>indexUri = \<lparr>scheme = ''file'', authority = [],
                         path = abs_path (B @ [hd ys, ''index.ts''])\<rparr>,
            indexPath = abs_path (B @ [''index.ts'']), found = False,
            iteration = 100, probes = (pr + 1) + length ys\<rparr>"
    proof (rule snoc.IH)
      show "ys \<noteq> []" by (rule False)
      show "list_all seg_ok (B @ ys)" using snoc.prems(2) by simp
      show "\<forall>n<length ys. files h \<lparr>scheme = ''file'', authority = [],
              path = abs_path (B @ take (Suc n) ys @ [''index.ts''])\<rparr> = None"
      proof (intro allI impI)
        fix n assume n: "n < length ys"
        then have "n < length (ys @ [x])" by simp
        from snoc.prems(3) [rule_format, OF this] n show "files h \<lparr>scheme = ''file'', authority = [],
              path = abs_path (B @ take (Suc n) ys @ [''index.ts''])\<rparr> = None" by simp
      qed
      show "prefix wp (abs_path B @ ''/'')" by (rule snoc.prems(4))
      show "it + 1 + length ys = 100" using snoc.prems(7) by simp
    qed simp_all
    have "hd (ys @ [x]) = hd ys" using False by simp
    with step ih eq show ?thesis by (simp del: abs_path_append abs_path_Cons)
  qed
qed

lemma Uri_file_barrel:
  "list_all seg_ok cs \<Longrightarrow>
   Uri_file (abs_path (cs @ [''index.ts''])) =
   \<lparr>scheme = ''file'', authority = [], path = abs_path (cs @ [''index.ts''])\<rparr>"
  by (cases cs) (simp_all add: Uri_file_abs_path del: abs_path_Cons abs_path_append)

lemma prefix_root_path: "prefix (root_path ws) (abs_path (ws @ zs) @ ''/'')"
proof (cases "ws = []")
  case True
  then show ?thesis by (cases zs) (simp_all add: root_path_def)
next
  case False
  then show ?thesis by (simp add: root_path_def)
qed

lemma findIndex_climb_nearest:
  assumes "list_all seg_ok (ws @ ds @ [f])"
      and "workspaceFolders h = W # others" and "path W = root_path ws"
      and "activeTextEditor h = Some doc" and "path (uri doc) = abs_path (ws @ ds @ [f])"
      and "k \<le> length ds" and "k < 100"
      and "files h (Uri_file (barrel_at (ws @ ds) k)) \<noteq> None"
      and "\<forall>j<k. files h (Uri_file (barrel_at (ws @ ds) j)) = None"
  shows "findIndex h = (Some (Uri_file (barrel_at (ws @ ds) k)), h)"
proof -
  define B where "B = ws @ take (length ds - k) ds"
  define xs where "xs = drop (length ds - k) ds"
  have D: "ws @ ds = B @ xs" by (simp add: B_def xs_def)
  have len: "length xs = k" using assms(6) by (simp add: xs_def)
  have "list_all seg_ok (ws @ ds)" "seg_ok f" using assms(1) by simp_all
  then have okD: "list_all seg_ok (B @ xs)" "seg_ok f" unfolding D by simp_all
  have okB: "list_all seg_ok B" using okD(1) by simp
  have bar: "barrel_at (ws @ ds) j = abs_path (B @ take (k - j) xs @ [''index.ts''])"
    if "j \<le> k" for j
  proof -
    have "take (length (ws @ ds) - j) (ws @ ds) = B @ take (k - j) xs"
      using that assms(6) len unfolding D by simp
    then show ?thesis by (simp add: barrel_at_def del: abs_path_append abs_path_Cons)
  qed
  have ok_take: "list_all seg_ok (B @ take n xs)" for n
    using okD(1) by (auto simp: list_all_iff dest: in_set_takeD)
  obtain e where e: "files h \<lparr>scheme = ''file'', authority = [],
      path = abs_path (B @ [''index.ts''])\<rparr> = Some e"
    using assms(8) bar [of k] Uri_file_barrel [OF okB] by auto
  have miss: "\<forall>n<length xs. files h \<lparr>scheme = ''file'', authority = [],
      path = abs_path (B @ take (Suc n) xs @ [''index.ts''])\<rparr> = None"
  proof (intro allI impI)
    fix n assume n: "n < length xs"
    then have j: "k - Suc n < k" "k - Suc n \<le> k" "k - (k - Suc n) = Suc n"
      using len by simp_all
    have "files h (Uri_file (barrel_at (ws @ ds) (k - Suc n))) = None"
      using assms(9) j(1) by blast
    then show "files h \<lparr>scheme = ''file'', authority = [],
      path = abs_path (B @ take (Suc n) xs @ [''index.ts''])\<rparr> = None"
      using bar [OF j(2)] Uri_file_barrel [OF ok_take [of "Suc n"]] j(3)
      by (simp del: abs_path_append abs_path_Cons)
  qed
  have pre: "prefix (path W) (abs_path B @ ''/'')"
    unfolding assms(3) B_def by (rule prefix_root_path)
  have first: "posix_join [path (uri doc), ''..'', ''index.ts''] = abs_path (B @ xs @ [''index.ts''])"
  proof -
    have "ws @ ds @ [f] = (B @ xs) @ [f]" using D by simp
    then have p5: "path (uri doc) = abs_path ((B @ xs) @ [f])"
      using assms(5) by (simp only:)
    have "list_all seg_ok ((B @ xs) @ [f])" using okD by simp
    from posix_join_first [OF this] show ?thesis unfolding p5 by simp
  qed
  have u0: "Uri_file (abs_path (B @ xs @ [''index.ts''])) =
      \<lparr>scheme = ''file'', authority = [], path = abs_path (B @ xs @ [''index.ts''])\<rparr>"
    using Uri_file_barrel [OF okD(1)] by simp
  have lt: "0 + length xs < 100" using len assms(7) by simp
  have "findIndex_loop h (path W)
           \<lparr>indexUri = Uri_file (abs_path (B @ xs @ [''index.ts''])),
            indexPath = abs_path (B @ xs @ [''index.ts'']), found = False,
            iteration = 0, probes = 0\<rparr>
         = \<lparr>indexUri = \<lparr>scheme = ''file'', authority = [], path = abs_path (B @ [''index.ts''])\<rparr>,
            indexPath = abs_path (B @ [''index.ts'']), found = True,
            iteration = 0 + length xs, probes = 0 + length xs + 1\<rparr>"
    by (rule findIndex_loop_climb_found [OF okD(1) e miss pre _ _ lt]) (unfold u0, simp_all)
  moreover have "Uri_file (barrel_at (ws @ ds) k) =
      \<lparr>scheme = ''file'', authority = [], path = abs_path (B @ [''index.ts''])\<rparr>"
    using bar [of k] Uri_file_barrel [OF okB] by simp
  ultimately show ?thesis
    by (simp add: findIndex_def assms(2,4) first Let_def)
qed

section \<open>The walk is bounded\<close>

text \<open>
  Claim C9. Whatever the host, the workspace root and the path the walk starts from (however
  deep the tree, and whether or not any \<open>index.ts\<close> exists), the loop of \<open>findIndex\<close>
  returns, and its body has run at most 100 times when it does. \<open>findIndex_loop\<close> is a
  total function (its termination is proved with its definition), and \<open>probes\<close> counts
  the runs of the body.
\<close>

theorem findIndex_walk_bounded:
  "probes (findIndex_loop h workspacePath
      \<lparr>indexUri = Uri_file p, indexPath = p, found = False, iteration = 0, probes = 0\<rparr>) \<le> 100"
  using findIndex_loop_probes [of h workspacePath
      "\<lparr>indexUri = Uri_file p, indexPath = p, found = False, iteration = 0, probes = 0\<rparr>"]
  by simp

section \<open>The nearest barrel file\<close>

text \<open>
  Claim C2, amended. The active file is \<open>/ws/ds/f\<close>, in normal form, inside the workspace
  root \<open>/ws\<close>. If the nearest \<open>index.ts\<close> at or above the file's directory and at or
  below the root is \<open>k\<close> levels above the file's directory, and \<open>k\<close> is less than 100,
  then \<open>findIndex\<close> returns that file, and no farther one. (The walk probes one hundred
  paths at most: see the counterexample for a barrel file one hundred levels up.)
\<close>

theorem findIndex_nearest_within_cap:
  assumes "list_all seg_ok (ws @ ds @ [f])"
      and "workspaceFolders h = W # others" and "path W = root_path ws"
      and "activeTextEditor h = Some doc" and "path (uri doc) = abs_path (ws @ ds @ [f])"
      and "k \<le> length ds" and "k < 100"
      and "files h (Uri_file (barrel_at (ws @ ds) k)) \<noteq> None"
      and "\<forall>j<k. files h (Uri_file (barrel_at (ws @ ds) j)) = None"
  shows "findIndex h = (Some (Uri_file (barrel_at (ws @ ds) k)), h)"
  using assms by (rule findIndex_climb_nearest)

theorem findIndex_nearest_witness:
  "findIndex example_host = (Some (Uri_file ''/ws/a/index.ts''), example_host)"
proof -
  have 1: "list_all seg_ok ([''ws''] @ [''a'', ''b''] @ [''Foo.ts''])"
    by (simp add: seg_ok_def)
  have 2: "workspaceFolders example_host = Uri_file ''/ws'' # []"
    by (simp add: example_host_def)
  have 3: "path (Uri_file ''/ws'') = root_path [''ws'']"
    by (simp add: Uri_file_def root_path_def referenceResolution_def)
  have 4: "activeTextEditor example_host = Some foo_doc"
    by (simp add: example_host_def)
  have 5: "path (uri foo_doc) = abs_path ([''ws''] @ [''a'', ''b''] @ [''Foo.ts''])"
    by (simp add: foo_doc_def Uri_file_def referenceResolution_def)
  have 6: "(1::nat) \<le> length [''a'', ''b'']" and 7: "(1::nat) < 100" by simp_all
  have 8: "files example_host (Uri_file (barrel_at ([''ws''] @ [''a'', ''b'']) 1)) \<noteq> None"
    by (simp add: example_host_def barrel_at_def Uri_file_def referenceResolution_def)
  have 9: "\<forall>j<1. files example_host (Uri_file (barrel_at ([''ws''] @ [''a'', ''b'']) j)) = None"
    by (simp add: example_host_def barrel_at_def Uri_file_def referenceResolution_def)
  show ?thesis
    using findIndex_nearest_within_cap [OF 1 2 3 4 5 6 7 8 9] by (simp add: barrel_at_def)
qed

text \<open>
  Claim C2 as stated fails on a deep tree. In \<open>deep_host\<close> the only barrel file,
  \<open>/w/r/index.ts\<close>, is one hundred levels above the active file's directory. The walk
  stops after its hundredth probe and \<open>findIndex\<close> returns the last path probed,
  \<open>/w/r/d/index.ts\<close>, which does not exist.
\<close>

theorem findIndex_nearest_counterexample:
  "files deep_host (Uri_file ''/w/r/index.ts'') = Some (File [])
   \<and> fst (findIndex deep_host) = Some (Uri_file ''/w/r/d/index.ts'')
   \<and> files deep_host (Uri_file ''/w/r/d/index.ts'') = None"
proof -
  let ?B = "[''w'', ''r'']"
  let ?xs = "replicate 100 ''d''"
  let ?p = "abs_path (?B @ ?xs @ [''index.ts''])"
  have okd: "seg_ok ''d''" "seg_ok ''w''" "seg_ok ''r''" "seg_ok ''F.ts''"
    by (simp_all add: seg_ok_def)
  have ok: "list_all seg_ok (?B @ ?xs)"
    using okd by (simp add: list_all_iff)
  have okf: "list_all seg_ok ((?B @ ?xs) @ [''F.ts''])"
    using okd by (simp add: list_all_iff)
  have df: "deep_file = abs_path ((?B @ ?xs) @ [''F.ts''])"
    by (simp add: deep_file_def)
  have uf: "path (Uri_file deep_file) = deep_file"
    unfolding deep_file_def using Uri_file_abs_path [OF okd(2), of "''r'' # ?xs @ [''F.ts'']"]
    by simp
  have first: "posix_join [path (Uri_file deep_file), ''..'', ''index.ts''] = ?p"
  proof -
    have "posix_join [deep_file, ''..'', ''index.ts''] = ?p"
      unfolding df using posix_join_first [OF okf] by simp
    then show ?thesis by (simp only: uf)
  qed
  have u0: "Uri_file ?p = \<lparr>scheme = ''file'', authority = [], path = ?p\<rparr>"
    using Uri_file_barrel [OF ok] by simp
  have wsp: "path (Uri_file ''/w'') = ''/w''"
    by (simp add: Uri_file_def referenceResolution_def)
  have bar: "Uri_file ''/w/r/index.ts'' = \<lparr>scheme = ''file'', authority = [], path = ''/w/r/index.ts''\<rparr>"
    and bar1: "Uri_file ''/w/r/d/index.ts'' = \<lparr>scheme = ''file'', authority = [], path = ''/w/r/d/index.ts''\<rparr>"
    by (simp_all add: Uri_file_def referenceResolution_def)
  have miss: "\<forall>n<length ?xs. files deep_host \<lparr>scheme = ''file'', authority = [],
      path = abs_path (?B @ take (Suc n) ?xs @ [''index.ts''])\<rparr> = None"
    by (simp add: deep_host_def bar min_def)
  have pre: "prefix ''/w'' (abs_path ?B @ ''/'')" by simp
  have "findIndex_loop deep_host ''/w''
           \<lparr>indexUri = Uri_file ?p, indexPath = ?p, found = False, iteration = 0, probes = 0\<rparr>
         = \<lparr>indexUri = \<lparr>scheme = ''file'', authority = [],
                         path = abs_path (?B @ [hd ?xs, ''index.ts''])\<rparr>,
            indexPath = abs_path (?B @ [''index.ts'']), found = False,
            iteration = 100, probes = 0 + length ?xs\<rparr>"
    by (rule findIndex_loop_climb_cap [OF _ ok miss pre]) (unfold u0, simp_all)
  then have "fst (findIndex deep_host) = Some (Uri_file ''/w/r/d/index.ts'')"
    by (simp add: findIndex_def deep_host_def wsp first Let_def bar1)
  moreover have "files deep_host (Uri_file ''/w/r/index.ts'') = Some (File [])"
    by (simp add: deep_host_def)
  moreover have "files deep_host (Uri_file ''/w/r/d/index.ts'') = None"
    by (simp add: deep_host_def bar bar1)
  ultimately show ?thesis by simp
qed

section \<open>No barrel file anywhere\<close>

text \<open>
  With a folder open and an active editor, \<open>findIndex\<close> never returns \<open>null\<close>: after
  the loop it returns the URI it probed last, whether or not the probe succeeded.
\<close>

lemma findIndex_host: "findIndex h = (r, h') \<Longrightarrow> r \<noteq> None \<Longrightarrow> h' = h"
  by (auto simp: findIndex_def Let_def split: list.splits option.splits)

lemma findIndex_never_null:
  "workspaceFolders h \<noteq> [] \<Longrightarrow> activeTextEditor h \<noteq> None \<Longrightarrow>
   \<exists>u. findIndex h = (Some u, h)"
  by (auto simp: findIndex_def Let_def split: list.splits option.splits)

text \<open>
  So with a folder open and an active editor the export command never shows
  \<open>Unable to find an index.ts file to export to\<close>, and the scanner never takes its
  early return: a missing barrel file shows up only when \<open>openTextDocument\<close> fails.
\<close>

lemma command_handler_never_reports_missing_barrel:
  assumes "workspaceFolders h \<noteq> []" and "activeTextEditor h \<noteq> None"
  shows "messages (snd (command_handler h)) = messages h
         \<or> messages (snd (command_handler h)) = messages h @ [''Error inserting export snippet.'']"
proof -
  obtain u where fi: "findIndex h = (Some u, h)"
    using findIndex_never_null [OF assms] by blast
  obtain rel where gr: "getRelativePath h u = Some rel"
    using assms(2) by (auto simp: getRelativePath_def Let_def)
  show ?thesis
    by (auto simp: command_handler_def fi gr showTextDocument_def edit_insert_def Let_def
          showErrorMessage_def console_error_def split: sum.splits option.splits)
qed

lemma refresh_loop_never_returns_early:
  assumes "workspaceFolders h \<noteq> []" and "activeTextEditor h \<noteq> None"
  shows "fst (refresh_loop ls i ds h) \<noteq> EarlyReturn"
proof -
  obtain u where fi: "findIndex h = (Some u, h)"
    using findIndex_never_null [OF assms] by blast
  obtain rel where gr: "getRelativePath h u = Some rel"
    using assms(2) by (auto simp: getRelativePath_def Let_def)
  show ?thesis
    by (induction ls arbitrary: i ds) (auto simp: fi gr Let_def split: sum.splits)
qed

text \<open>
  Claim C1 says that the export command, when no \<open>index.ts\<close> exists between the active
  file's directory and the workspace root, shows the message
  \<open>Unable to find an index.ts file to export to\<close> and modifies no file. In
  \<open>no_barrel_host\<close> the code does not show it: \<open>findIndex\<close> returns \<open>/ws/index.ts\<close>,
  the last path probed, the test \<open>!indexUri\<close> is false, and \<open>openTextDocument\<close> fails on
  the missing file before the \<open>try\<close> block. The handler ends with that exception, the
  host unchanged: no message, and no file modified.
\<close>

theorem command_no_barrel_throws:
  "command_handler no_barrel_host
   = (Threw (CannotOpen (Uri_file ''/ws/index.ts'')), no_barrel_host)"
proof -
  have "fst (findIndex no_barrel_host) = Some (Uri_file ''/ws/index.ts'')"
    by code_simp
  moreover obtain u where "findIndex no_barrel_host = (Some u, no_barrel_host)"
    using findIndex_never_null [of no_barrel_host] by (auto simp: no_barrel_host_def)
  ultimately have fi: "findIndex no_barrel_host = (Some (Uri_file ''/ws/index.ts''), no_barrel_host)"
    by simp
  have gr: "getRelativePath no_barrel_host (Uri_file ''/ws/index.ts'') = Some ''/a/b/Foo''"
    by code_simp
  have ot: "openTextDocument no_barrel_host (Uri_file ''/ws/index.ts'')
            = Inl (CannotOpen (Uri_file ''/ws/index.ts''))"
    by code_simp
  show ?thesis by (simp add: command_handler_def fi gr ot)
qed

text \<open>
  Claim C4 says that a scan of a document for which no barrel file can be resolved
  completes without an error and emits no markers. In \<open>no_barrel_host\<close> the scan of
  \<open>/ws/a/b/Foo.ts\<close> does not complete: at the line with \<open>export\<close>, \<open>findIndex\<close>
  returns \<open>/ws/index.ts\<close> instead of \<open>null\<close>, and \<open>openTextDocument\<close> throws out of
  \<open>refreshDiagnostics\<close>. The collection is left as it was.
\<close>

theorem scan_no_barrel_throws:
  "refreshDiagnostics foo_doc no_barrel_host
   = (Threw (CannotOpen (Uri_file ''/ws/index.ts'')), no_barrel_host)"
proof -
  have "fst (findIndex no_barrel_host) = Some (Uri_file ''/ws/index.ts'')"
    by code_simp
  moreover obtain u where "findIndex no_barrel_host = (Some u, no_barrel_host)"
    using findIndex_never_null [of no_barrel_host] by (auto simp: no_barrel_host_def)
  ultimately have fi: "findIndex no_barrel_host = (Some (Uri_file ''/ws/index.ts''), no_barrel_host)"
    by simp
  have gr: "getRelativePath no_barrel_host (Uri_file ''/ws/index.ts'') = Some ''/a/b/Foo''"
    by code_simp
  have ot: "openTextDocument no_barrel_host (Uri_file ''/ws/index.ts'')
            = Inl (CannotOpen (Uri_file ''/ws/index.ts''))"
    by code_simp
  have nb: "posix_basename (path (Uri_file (fileName foo_doc))) \<noteq> ''index.ts''"
    by code_simp
  have ls: "text_lines (getText foo_doc) = [''export class Foo {}'']"
    by code_simp
  have inc: "js_includes ''export class Foo {}'' EXPORT"
    by code_simp
  show ?thesis
    by (simp add: refreshDiagnostics_def nb ls inc fi gr ot Let_def)
qed

section \<open>The relative specifier\<close>

lemma js_replace_prefix:
  "prefix pat s \<Longrightarrow> js_replace s pat [] = drop (length pat) s"
  by (simp add: js_replace_def js_indexOf_prefix)

lemma js_replace_absent:
  "\<not> sublist pat s \<Longrightarrow> js_replace s pat [] = s"
  using js_indexOf_sublist [of s pat] by (simp add: js_replace_def)

text \<open>
  Claim C3, amended. With an active editor, \<open>getRelativePath\<close> returns
  \<open>suffix/basename\<close>, where \<open>basename\<close> is the active file's base name without \<open>.ts\<close>
  and \<open>suffix\<close> is the active file's directory \<open>F\<close> with the first occurrence of the
  barrel file's directory \<open>B\<close> removed. If \<open>B\<close> is a prefix of \<open>F\<close>, the suffix is \<open>F\<close>
  without that prefix. If \<open>B\<close> does not occur in \<open>F\<close> at all, the suffix is \<open>F\<close>, unmodified.
\<close>

theorem getRelativePath_specifier:
  assumes "activeTextEditor h = Some editor"
  shows "getRelativePath h indexUri'
           = Some (js_replace (posix_dirname (path (uri editor)))
                      (posix_dirname (path indexUri')) []
                   @ ''/'' @ posix_basename_ext (path (uri editor)) ''.ts'')
         \<and> (prefix (posix_dirname (path indexUri')) (posix_dirname (path (uri editor))) \<longrightarrow>
              js_replace (posix_dirname (path (uri editor))) (posix_dirname (path indexUri')) []
              = drop (length (posix_dirname (path indexUri'))) (posix_dirname (path (uri editor))))
         \<and> (\<not> sublist (posix_dirname (path indexUri')) (posix_dirname (path (uri editor))) \<longrightarrow>
              js_replace (posix_dirname (path (uri editor))) (posix_dirname (path indexUri')) []
              = posix_dirname (path (uri editor)))"
  using assms
  by (simp add: getRelativePath_def Let_def js_replace_prefix js_replace_absent)

theorem getRelativePath_specifier_witness:
  "getRelativePath example_host (Uri_file ''/ws/a/index.ts'') = Some ''/b/Foo''
   \<and> getRelativePath example_host (Uri_file ''/x/index.ts'') = Some ''/ws/a/b/Foo''"
proof -
  have a: "activeTextEditor example_host = Some foo_doc"
    by (simp add: example_host_def)
  have F: "posix_dirname (path (uri foo_doc)) = ''/ws/a/b''" by code_simp
  have base: "posix_basename_ext (path (uri foo_doc)) ''.ts'' = ''Foo''" by code_simp
  have B1: "posix_dirname (path (Uri_file ''/ws/a/index.ts'')) = ''/ws/a''" by code_simp
  have B2: "posix_dirname (path (Uri_file ''/x/index.ts'')) = ''/x''" by code_simp
  have p1: "prefix ''/ws/a'' ''/ws/a/b''" by simp
  have p2: "\<not> sublist ''/x'' ''/ws/a/b''" by code_simp
  from getRelativePath_specifier [OF a, of "Uri_file ''/ws/a/index.ts''"] p1
  have "getRelativePath example_host (Uri_file ''/ws/a/index.ts'') = Some ''/b/Foo''"
    unfolding F B1 base by simp
  moreover
  from getRelativePath_specifier [OF a, of "Uri_file ''/x/index.ts''"] p2
  have "getRelativePath example_host (Uri_file ''/x/index.ts'') = Some ''/ws/a/b/Foo''"
    unfolding F B2 base by simp
  ultimately show ?thesis by simp
qed

text \<open>
  Claim C3 as stated says that the suffix is the unmodified \<open>F\<close> whenever \<open>B\<close> is not a
  prefix of \<open>F\<close>. \<open>replace\<close> removes the first occurrence wherever it is: for the active
  file \<open>/ws/a/b/Foo.ts\<close> and the barrel directory \<open>/a\<close>, which is not a prefix of
  \<open>/ws/a/b\<close>, the suffix is \<open>/ws/b\<close>.
\<close>

theorem getRelativePath_counterexample:
  "\<not> prefix (posix_dirname (path (Uri_file ''/a/index.ts''))) (posix_dirname (path (uri foo_doc)))
   \<and> activeTextEditor example_host = Some foo_doc
   \<and> getRelativePath example_host (Uri_file ''/a/index.ts'') = Some ''/ws/b/Foo''
   \<and> ''/ws/b/Foo'' \<noteq> posix_dirname (path (uri foo_doc)) @ ''/Foo''"
proof -
  have F: "posix_dirname (path (uri foo_doc)) = ''/ws/a/b''" by code_simp
  have B: "posix_dirname (path (Uri_file ''/a/index.ts'')) = ''/a''" by code_simp
  have g: "getRelativePath example_host (Uri_file ''/a/index.ts'') = Some ''/ws/b/Foo''"
    by code_simp
  show ?thesis unfolding F B g by (simp add: example_host_def)
qed

section \<open>The hint scanner\<close>

text \<open>
  When the barrel file resolves (\<open>findIndex\<close> returns a URI, \<open>getRelativePath\<close> a
  specifier, and the barrel file opens), the loop of \<open>refreshDiagnostics\<close> reaches the
  last line, the host unchanged, and adds to the markers it started with either nothing
  (the specifier occurs in the barrel file's text) or one marker for each line with
  \<open>export\<close>.
\<close>

lemma refresh_loop_resolved:
  assumes "findIndex h = (Some iu, h)" and "getRelativePath h iu = Some rel"
      and "openTextDocument h iu = Inr b"
  shows "refresh_loop ls i ds h =
         (Completed (ds @ (if sublist rel (getText b) then []
                           else map (\<lambda>(i, l). hint_marker i (js_indexOf l ''export''))
                                  (filter (\<lambda>(i, l). sublist ''export'' l) (enumerate i ls)))), h)"
proof (induction ls arbitrary: i ds)
  case Nil
  then show ?case by simp
next
  case (Cons l ls)
  have eq: "(js_indexOf (getText b) rel = - 1) = (\<not> sublist rel (getText b))"
    using js_indexOf_sublist [of "getText b" rel] by auto
  show ?case
    by (simp add: assms Cons.IH js_includes_sublist EXPORT_def EXPORT_THIS_MENTION_def
                  hint_marker_def Let_def eq)
qed

lemma example_host_findIndex:
  "findIndex example_host = (Some (Uri_file ''/ws/a/index.ts''), example_host)"
proof -
  have "fst (findIndex example_host) = Some (Uri_file ''/ws/a/index.ts'')"
    by code_simp
  moreover obtain u where "findIndex example_host = (Some u, example_host)"
    using findIndex_never_null [of example_host] by (auto simp: example_host_def)
  ultimately show ?thesis by simp
qed

lemma exported_host_findIndex:
  "findIndex exported_host = (Some (Uri_file ''/ws/a/index.ts''), exported_host)"
proof -
  have "fst (findIndex exported_host) = Some (Uri_file ''/ws/a/index.ts'')"
    by code_simp
  moreover obtain u where "findIndex exported_host = (Some u, exported_host)"
    using findIndex_never_null [of exported_host] by (auto simp: exported_host_def)
  ultimately show ?thesis by simp
qed

text \<open>
  Claim C5. A document named \<open>index.ts\<close> is never scanned: \<open>refreshDiagnostics\<close> returns
  at once and leaves the host as it is, whatever the document's content. For any other
  document, when the barrel file resolves and the specifier does not occur in its text, the
  scan sets the document's markers to \<open>spec_markers\<close> of its lines: exactly one hint for
  each line that contains \<open>export\<close>, from the column \<open>indexOf\<close> gives to six columns
  further. That column is the first occurrence of \<open>export\<close> on the line.
\<close>

theorem scanner_markers:
  "(posix_basename (path (Uri_file (fileName doc))) = ''index.ts'' \<longrightarrow>
      refreshDiagnostics doc h = (Returned, h))
   \<and> (posix_basename (path (Uri_file (fileName doc))) \<noteq> ''index.ts''
        \<and> findIndex h = (Some iu, h) \<and> getRelativePath h iu = Some rel
        \<and> openTextDocument h iu = Inr b \<and> \<not> sublist rel (getText b) \<longrightarrow>
      refreshDiagnostics doc h =
        (Returned,
         h\<lparr>diagnostics := (diagnostics h)(uri doc \<mapsto> spec_markers (text_lines (getText doc)))\<rparr>))
   \<and> (sublist ''export'' l \<longrightarrow>
        0 \<le> js_indexOf l ''export''
        \<and> first_occurrence_at ''export'' l (nat (js_indexOf l ''export'')))"
proof (intro conjI impI)
  assume "posix_basename (path (Uri_file (fileName doc))) = ''index.ts''"
  then show "refreshDiagnostics doc h = (Returned, h)"
    by (simp add: refreshDiagnostics_def)
next
  assume a: "posix_basename (path (Uri_file (fileName doc))) \<noteq> ''index.ts''
        \<and> findIndex h = (Some iu, h) \<and> getRelativePath h iu = Some rel
        \<and> openTextDocument h iu = Inr b \<and> \<not> sublist rel (getText b)"
  then have "refresh_loop (text_lines (getText doc)) 0 [] h
             = (Completed (spec_markers (text_lines (getText doc))), h)"
    by (simp add: refresh_loop_resolved [of h iu rel b] spec_markers_def)
  with a show "refreshDiagnostics doc h =
        (Returned,
         h\<lparr>diagnostics := (diagnostics h)(uri doc \<mapsto> spec_markers (text_lines (getText doc)))\<rparr>)"
    by (simp add: refreshDiagnostics_def)
next
  assume s: "sublist ''export'' l"
  then have ne: "js_indexOf l ''export'' \<noteq> - 1" by (simp add: js_indexOf_sublist)
  then show "0 \<le> js_indexOf l ''export''" using js_indexOf_ge [of l "''export''"] by simp
  show "first_occurrence_at ''export'' l (nat (js_indexOf l ''export''))"
    by (rule js_indexOf_first [OF ne])
qed

theorem scanner_markers_witness:
  "refreshDiagnostics index_doc example_host = (Returned, example_host)
   \<and> refreshDiagnostics baz_doc example_host =
       (Returned,
        example_host\<lparr>diagnostics :=
          (diagnostics example_host)(uri baz_doc \<mapsto> [hint_marker 0 2, hint_marker 2 8])\<rparr>)
   \<and> first_occurrence_at ''export'' ''  export class Baz {}'' 2"
proof -
  let ?iu = "Uri_file ''/ws/a/index.ts''"
  let ?b = "\<lparr>uri = ?iu, fileName = ''/ws/a/index.ts'', getText = ''export * from './x';''\<rparr>"
  have i: "posix_basename (path (Uri_file (fileName index_doc))) = ''index.ts''"
    by code_simp
  have nb: "posix_basename (path (Uri_file (fileName baz_doc))) \<noteq> ''index.ts''"
    by code_simp
  have gr: "getRelativePath example_host ?iu = Some ''/b/Foo''" by code_simp
  have ot: "openTextDocument example_host ?iu = Inr ?b" by code_simp
  have ab: "\<not> sublist ''/b/Foo'' (getText ?b)" by code_simp
  have sm: "spec_markers (text_lines (getText baz_doc)) = [hint_marker 0 2, hint_marker 2 8]"
    by code_simp
  have l: "sublist ''export'' ''  export class Baz {}''" by code_simp
  have ix: "js_indexOf ''  export class Baz {}'' ''export'' = 2" by code_simp
  from scanner_markers [of index_doc example_host] i
  have 1: "refreshDiagnostics index_doc example_host = (Returned, example_host)"
    by blast
  from scanner_markers [of baz_doc example_host ?iu "''/b/Foo''" ?b]
    nb example_host_findIndex gr ot ab
  have 2: "refreshDiagnostics baz_doc example_host =
       (Returned,
        example_host\<lparr>diagnostics :=
          (diagnostics example_host)(uri baz_doc \<mapsto> [hint_marker 0 2, hint_marker 2 8])\<rparr>)"
    unfolding sm by blast
  from scanner_markers [of _ _ _ _ _ "''  export class Baz {}''"] l
  have 3: "first_occurrence_at ''export'' ''  export class Baz {}'' 2"
    unfolding ix by simp
  from 1 2 3 show ?thesis by simp
qed

text \<open>
  Claim C6. When the barrel file resolves and its text contains the specifier as a
  substring, the scan emits no marker: the document's marker set becomes empty (and a
  document named \<open>index.ts\<close> is not scanned at all), whatever the number of its lines with
  \<open>export\<close>.
\<close>

theorem scanner_suppressed:
  assumes "findIndex h = (Some iu, h)" and "getRelativePath h iu = Some rel"
      and "openTextDocument h iu = Inr b" and "sublist rel (getText b)"
  shows "refreshDiagnostics doc h =
         (Returned,
          if posix_basename (path (Uri_file (fileName doc))) = ''index.ts'' then h
          else h\<lparr>diagnostics := (diagnostics h)(uri doc \<mapsto> [])\<rparr>)"
  using assms(4)
  by (simp add: refreshDiagnostics_def refresh_loop_resolved [OF assms(1,2,3)])


theorem scanner_suppressed_witness:
  "refreshDiagnostics foo_doc exported_host =
     (Returned,
      exported_host\<lparr>diagnostics := (diagnostics exported_host)(uri foo_doc \<mapsto> [])\<rparr>)"
proof -
  let ?iu = "Uri_file ''/ws/a/index.ts''"
  let ?b = "\<lparr>uri = ?iu, fileName = ''/ws/a/index.ts'', getText = ''export * from './b/Foo';''\<rparr>"
  have nb: "posix_basename (path (Uri_file (fileName foo_doc))) \<noteq> ''index.ts''"
    by code_simp
  have gr: "getRelativePath exported_host ?iu = Some ''/b/Foo''" by code_simp
  have ot: "openTextDocument exported_host ?iu = Inr ?b" by code_simp
  have ab: "sublist ''/b/Foo'' (getText ?b)" by code_simp
  show ?thesis
    using scanner_suppressed [OF exported_host_findIndex gr ot ab, of foo_doc] nb by simp
qed

section \<open>The export command\<close>

lemma offsetAt_past_end:
  "offsetAt txt \<lparr>line = int (length (text_lines txt)), character = c\<rparr> = length txt"
  by (simp add: offsetAt_def Let_def)

lemma openTextDocument_Inr:
  "openTextDocument h u = Inr b \<Longrightarrow> uri b = u \<and> files h u = Some (File (getText b))"
  by (auto simp: openTextDocument_def split: option.splits fs_entry.splits)

lemma command_handler_success:
  assumes "findIndex h = (Some iu, h)" and "getRelativePath h iu = Some S"
      and "openTextDocument h iu = Inr b" and "editor_fault h = None"
  shows "command_handler h =
           (Returned,
            edit_insert b \<lparr>line = int (lineCount b), character = 0\<rparr>
              (''export * from '.'' @ S @ ''';'') (h\<lparr>activeTextEditor := Some b\<rparr>))"
    and "files (snd (command_handler h)) =
           (files h)(iu \<mapsto> File (getText b @ ''export * from '.'' @ S @ ''';''))"
proof -
  show 1: "command_handler h =
           (Returned,
            edit_insert b \<lparr>line = int (lineCount b), character = 0\<rparr>
              (''export * from '.'' @ S @ ''';'') (h\<lparr>activeTextEditor := Some b\<rparr>))"
    by (simp add: command_handler_def assms showTextDocument_def exportText_def)
  show "files (snd (command_handler h)) =
           (files h)(iu \<mapsto> File (getText b @ ''export * from '.'' @ S @ ''';''))"
    using openTextDocument_Inr [OF assms(3)]
    by (simp add: 1 edit_insert_def Let_def lineCount_def offsetAt_past_end)
qed

lemma foo_paths:
  "posix_dirname ''/ws/a/b/Foo.ts'' = ''/ws/a/b''"
  "posix_basename_ext ''/ws/a/b/Foo.ts'' ''.ts'' = ''Foo''"
  "posix_dirname ''/ws/a/index.ts'' = ''/ws/a''"
  "js_replace ''/ws/a/b'' ''/ws/a'' [] = ''/b''"
  "Uri_file ''/ws/a/b/Foo.ts'' = \<lparr>scheme = ''file'', authority = [], path = ''/ws/a/b/Foo.ts''\<rparr>"
  "Uri_file ''/ws/a/index.ts'' = \<lparr>scheme = ''file'', authority = [], path = ''/ws/a/index.ts''\<rparr>"
  "Uri_file ''/ws/a/b/index.ts'' = \<lparr>scheme = ''file'', authority = [], path = ''/ws/a/b/index.ts''\<rparr>"
  "Uri_file ''/ws'' = \<lparr>scheme = ''file'', authority = [], path = ''/ws''\<rparr>"
  by code_simp+

lemma foo_findIndex:
  assumes "workspaceFolders h = Uri_file ''/ws'' # others"
      and "activeTextEditor h = Some doc" and "uri doc = Uri_file ''/ws/a/b/Foo.ts''"
      and "files h (Uri_file ''/ws/a/b/index.ts'') = None"
      and "files h (Uri_file ''/ws/a/index.ts'') = Some e"
  shows "findIndex h = (Some (Uri_file ''/ws/a/index.ts''), h)"
proof -
  have 1: "list_all seg_ok ([''ws''] @ [''a'', ''b''] @ [''Foo.ts''])"
    by (simp add: seg_ok_def)
  have 3: "path (Uri_file ''/ws'') = root_path [''ws'']"
    by (simp add: foo_paths root_path_def)
  have 5: "path (uri doc) = abs_path ([''ws''] @ [''a'', ''b''] @ [''Foo.ts''])"
    by (simp add: assms(3) foo_paths)
  have 6: "(1::nat) \<le> length [''a'', ''b'']" and 7: "(1::nat) < 100" by simp_all
  have 8: "files h (Uri_file (barrel_at ([''ws''] @ [''a'', ''b'']) 1)) \<noteq> None"
    using assms(5) by (simp add: barrel_at_def)
  have 9: "\<forall>j<1. files h (Uri_file (barrel_at ([''ws''] @ [''a'', ''b'']) j)) = None"
    using assms(4) by (simp add: barrel_at_def)
  show ?thesis
    using findIndex_climb_nearest [OF 1 assms(1) 3 assms(2) 5 6 7 8 9]
    by (simp add: barrel_at_def)
qed

text \<open>
  The lines of a text to which a text without a line feed is appended: the lines before
  the last are unchanged, and the last line is continued. The last line is empty when the
  text is empty or ends with a line feed.
\<close>

lemma split_on_not_Nil [simp]: "split_on sep s \<noteq> []"
  by (induction s) (auto split: list.splits)

lemma split_on_append_nosep:
  "sep \<notin> set t \<Longrightarrow>
   split_on sep (s @ t) = butlast (split_on sep s) @ [last (split_on sep s) @ t]"
proof (induction s)
  case Nil
  then show ?case by (simp add: split_on_nosep)
next
  case (Cons c s)
  obtain seg segs where sp: "split_on sep s = seg # segs"
    by (cases "split_on sep s") simp_all
  show ?case
  proof (cases "c = sep")
    case True
    with Cons show ?thesis by simp
  next
    case False
    with Cons sp show ?thesis by (cases segs) simp_all
  qed
qed

lemma split_on_single_empty: "split_on sep s = [[]] \<Longrightarrow> s = []"
  by (cases s) (auto split: if_splits list.splits)

lemma last_split_on_empty:
  "s = [] \<or> last s = sep \<Longrightarrow> last (split_on sep s) = []"
proof (induction s)
  case Nil
  then show ?case by simp
next
  case (Cons c s)
  obtain seg segs where sp: "split_on sep s = seg # segs"
    by (cases "split_on sep s") simp_all
  show ?case
  proof (cases "s = []")
    case True
    with Cons.prems show ?thesis by simp
  next
    case False
    with Cons.prems have "last s = sep" by simp
    with Cons.IH have "last (split_on sep s) = []" by simp
    with sp False split_on_single_empty [of sep s] show ?thesis
      by (cases segs) (auto split: if_splits)
  qed
qed

lemma text_lines_insert_at_end:
  "CHR 0x0A \<notin> set t \<Longrightarrow>
   text_lines (txt @ t) = butlast (text_lines txt) @ [last (text_lines txt) @ t]"
  by (simp add: text_lines_def split_on_append_nosep)

lemma newline_host_findIndex:
  "findIndex newline_host = (Some (Uri_file ''/ws/a/index.ts''), newline_host)"
proof -
  have "fst (findIndex newline_host) = Some (Uri_file ''/ws/a/index.ts'')"
    by code_simp
  moreover obtain u where "findIndex newline_host = (Some u, newline_host)"
    using findIndex_never_null [of newline_host] by (auto simp: newline_host_def)
  ultimately show ?thesis by simp
qed

text \<open>
  Claim C7, amended. When the export command succeeds (the barrel file resolves to a URI,
  the specifier is \<open>S\<close>, the barrel file opens and is shown), the handler makes one edit of
  the barrel document: it inserts the text \<open>export * from '.S';\<close>, without a line break, at
  line \<open>lineCount\<close>, character 0, which the host validates to the end of the document. The
  barrel file's content becomes its previous content followed by that text, and no other
  file changes. The text continues the last line of the document: it is a line of its own,
  after the existing ones, when the previous content is empty or ends with a line break.
  In particular, for the workspace root \<open>/ws\<close>, the active file \<open>/ws/a/b/Foo.ts\<close> and
  the nearest barrel file \<open>/ws/a/index.ts\<close>, the specifier is \<open>/b/Foo\<close> and the inserted
  text is \<open>export * from './b/Foo';\<close>.
\<close>

theorem export_command_appends:
  "(findIndex h = (Some iu, h) \<and> getRelativePath h iu = Some S
      \<and> openTextDocument h iu = Inr b \<and> editor_fault h = None \<longrightarrow>
      command_handler h =
        (Returned,
         edit_insert b \<lparr>line = int (lineCount b), character = 0\<rparr>
           (''export * from '.'' @ S @ ''';'') (h\<lparr>activeTextEditor := Some b\<rparr>))
      \<and> offsetAt (getText b) \<lparr>line = int (lineCount b), character = 0\<rparr> = length (getText b)
      \<and> files (snd (command_handler h)) =
           (files h)(iu \<mapsto> File (getText b @ ''export * from '.'' @ S @ ''';''))
      \<and> (CHR 0x0A \<notin> set S \<longrightarrow>
           text_lines (getText b @ ''export * from '.'' @ S @ ''';'') =
             butlast (text_lines (getText b))
             @ [last (text_lines (getText b)) @ ''export * from '.'' @ S @ ''';''])
      \<and> (getText b = [] \<or> last (getText b) = CHR 0x0A \<longrightarrow>
           last (text_lines (getText b)) = []))
   \<and> (workspaceFolders h = Uri_file ''/ws'' # others
      \<and> activeTextEditor h = Some doc \<and> uri doc = Uri_file ''/ws/a/b/Foo.ts''
      \<and> files h (Uri_file ''/ws/a/b/index.ts'') = None
      \<and> files h (Uri_file ''/ws/a/index.ts'') = Some (File txt)
      \<and> editor_fault h = None \<longrightarrow>
      findIndex h = (Some (Uri_file ''/ws/a/index.ts''), h)
      \<and> getRelativePath h (Uri_file ''/ws/a/index.ts'') = Some ''/b/Foo''
      \<and> files (snd (command_handler h)) =
           (files h)(Uri_file ''/ws/a/index.ts'' \<mapsto> File (txt @ ''export * from './b/Foo';'')))"
proof (intro conjI impI)
  assume a: "findIndex h = (Some iu, h) \<and> getRelativePath h iu = Some S
      \<and> openTextDocument h iu = Inr b \<and> editor_fault h = None"
  then have f: "findIndex h = (Some iu, h)" "getRelativePath h iu = Some S"
    "openTextDocument h iu = Inr b" "editor_fault h = None"
    by simp_all
  show "command_handler h =
        (Returned,
         edit_insert b \<lparr>line = int (lineCount b), character = 0\<rparr>
           (''export * from '.'' @ S @ ''';'') (h\<lparr>activeTextEditor := Some b\<rparr>))"
    by (rule command_handler_success(1) [OF f])
  show "offsetAt (getText b) \<lparr>line = int (lineCount b), character = 0\<rparr> = length (getText b)"
    by (simp add: lineCount_def offsetAt_past_end)
  show "files (snd (command_handler h)) =
           (files h)(iu \<mapsto> File (getText b @ ''export * from '.'' @ S @ ''';''))"
    by (rule command_handler_success(2) [OF f])
next
  assume "CHR 0x0A \<notin> set S"
  then have "CHR 0x0A \<notin> set (''export * from '.'' @ S @ ''';'')" by simp
  then show "text_lines (getText b @ ''export * from '.'' @ S @ ''';'') =
             butlast (text_lines (getText b))
             @ [last (text_lines (getText b)) @ ''export * from '.'' @ S @ ''';'']"
    by (rule text_lines_insert_at_end)
next
  assume "getText b = [] \<or> last (getText b) = CHR 0x0A"
  then show "last (text_lines (getText b)) = []"
    unfolding text_lines_def by (rule last_split_on_empty)
next
  assume a: "workspaceFolders h = Uri_file ''/ws'' # others
      \<and> activeTextEditor h = Some doc \<and> uri doc = Uri_file ''/ws/a/b/Foo.ts''
      \<and> files h (Uri_file ''/ws/a/b/index.ts'') = None
      \<and> files h (Uri_file ''/ws/a/index.ts'') = Some (File txt)
      \<and> editor_fault h = None"
  let ?iu = "Uri_file ''/ws/a/index.ts''"
  from a have g: "workspaceFolders h = Uri_file ''/ws'' # others"
    "activeTextEditor h = Some doc" "uri doc = Uri_file ''/ws/a/b/Foo.ts''"
    "files h (Uri_file ''/ws/a/b/index.ts'') = None"
    "files h (Uri_file ''/ws/a/index.ts'') = Some (File txt)"
    by simp_all
  show fi: "findIndex h = (Some ?iu, h)"
    by (rule foo_findIndex [OF g])
  from a show gr: "getRelativePath h ?iu = Some ''/b/Foo''"
    by (simp add: getRelativePath_def foo_paths)
  have ot: "openTextDocument h ?iu = Inr \<lparr>uri = ?iu, fileName = path ?iu, getText = txt\<rparr>"
    using a by (simp add: openTextDocument_def)
  from a have ef: "editor_fault h = None" by simp
  show "files (snd (command_handler h)) =
           (files h)(?iu \<mapsto> File (txt @ ''export * from './b/Foo';''))"
    using command_handler_success(2) [OF fi gr ot ef] by simp
qed

theorem export_command_appends_witness:
  "getRelativePath example_host (Uri_file ''/ws/a/index.ts'') = Some ''/b/Foo''
   \<and> files (snd (command_handler example_host)) =
       (files example_host)(Uri_file ''/ws/a/index.ts'' \<mapsto>
          File (''export * from './x';'' @ ''export * from './b/Foo';''))
   \<and> fst (command_handler example_host) = Returned
   \<and> files (snd (command_handler newline_host)) =
       (files newline_host)(Uri_file ''/ws/a/index.ts'' \<mapsto>
          File ((''export * from './x';'' @ [CHR 0x0A]) @ ''export * from './b/Foo';''))
   \<and> text_lines ((''export * from './x';'' @ [CHR 0x0A]) @ ''export * from './b/Foo';'')
       = [''export * from './x';'', ''export * from './b/Foo';'']"
proof -
  let ?iu = "Uri_file ''/ws/a/index.ts''"
  let ?b = "\<lparr>uri = ?iu, fileName = ''/ws/a/index.ts'', getText = ''export * from './x';''\<rparr>"
  let ?n = "\<lparr>uri = ?iu, fileName = ''/ws/a/index.ts'',
             getText = ''export * from './x';'' @ [CHR 0x0A]\<rparr>"
  have gr: "getRelativePath example_host ?iu = Some ''/b/Foo''" by code_simp
  have ot: "openTextDocument example_host ?iu = Inr ?b" by code_simp
  have ef: "editor_fault example_host = None" by (simp add: example_host_def)
  have ex: "workspaceFolders example_host = Uri_file ''/ws'' # []
      \<and> activeTextEditor example_host = Some foo_doc \<and> uri foo_doc = Uri_file ''/ws/a/b/Foo.ts''
      \<and> files example_host (Uri_file ''/ws/a/b/index.ts'') = None
      \<and> files example_host (Uri_file ''/ws/a/index.ts'') = Some (File ''export * from './x';'')
      \<and> editor_fault example_host = None"
    by (simp add: example_host_def foo_doc_def foo_paths)
  from export_command_appends [of example_host ?iu "''/b/Foo''" ?b "[]" foo_doc "''export * from './x';''"]
    example_host_findIndex gr ot ef
  have 1: "fst (command_handler example_host) = Returned" by simp
  from export_command_appends [of example_host ?iu "''/b/Foo''" ?b "[]" foo_doc "''export * from './x';''"] ex
  have 2: "getRelativePath example_host (Uri_file ''/ws/a/index.ts'') = Some ''/b/Foo''
   \<and> files (snd (command_handler example_host)) =
       (files example_host)(Uri_file ''/ws/a/index.ts'' \<mapsto>
          File (''export * from './x';'' @ ''export * from './b/Foo';''))"
    by blast
  have ngr: "getRelativePath newline_host ?iu = Some ''/b/Foo''" by code_simp
  have not: "openTextDocument newline_host ?iu = Inr ?n" by code_simp
  have nef: "editor_fault newline_host = None" by (simp add: newline_host_def)
  have nl: "CHR 0x0A \<notin> set ''/b/Foo''" by simp
  have ends: "getText ?n = [] \<or> last (getText ?n) = CHR 0x0A" by simp
  have bl: "butlast (text_lines (getText ?n)) = [''export * from './x';'']" by code_simp
  have hyp: "findIndex newline_host = (Some ?iu, newline_host)
      \<and> getRelativePath newline_host ?iu = Some ''/b/Foo''
      \<and> openTextDocument newline_host ?iu = Inr ?n \<and> editor_fault newline_host = None"
    using newline_host_findIndex ngr not nef by simp
  from export_command_appends [of newline_host ?iu "''/b/Foo''" ?n "[]" foo_doc "[]"]
    hyp nl ends
  have 3: "files (snd (command_handler newline_host)) =
       (files newline_host)(?iu \<mapsto> File (getText ?n @ ''export * from '.'' @ ''/b/Foo'' @ ''';''))
     \<and> text_lines (getText ?n @ ''export * from '.'' @ ''/b/Foo'' @ ''';'') =
         butlast (text_lines (getText ?n)) @ [last (text_lines (getText ?n)) @ ''export * from '.'' @ ''/b/Foo'' @ ''';'']
     \<and> last (text_lines (getText ?n)) = []"
    by blast
  then have 4: "text_lines (getText ?n @ ''export * from '.'' @ ''/b/Foo'' @ ''';'')
       = [''export * from './x';'', ''export * from './b/Foo';'']"
    unfolding bl by simp
  from 1 2 3 4 show ?thesis by simp
qed

text \<open>
  Claim C7 as stated says that the inserted text is a line placed after the last existing
  line. In \<open>example_host\<close> the barrel file is the one line \<open>export * from './x';\<close>
  without a line break at its end. After the command it is still one line,
  \<open>export * from './x';export * from './b/Foo';\<close>, and the inserted text is not a line of
  the document.
\<close>

theorem export_command_same_line_counterexample:
  "fst (command_handler example_host) = Returned
   \<and> files example_host (Uri_file ''/ws/a/index.ts'') = Some (File ''export * from './x';'')
   \<and> files (snd (command_handler example_host)) (Uri_file ''/ws/a/index.ts'')
       = Some (File ''export * from './x';export * from './b/Foo';'')
   \<and> text_lines ''export * from './x';export * from './b/Foo';''
       = [''export * from './x';export * from './b/Foo';'']
   \<and> ''export * from './b/Foo';''
       \<notin> set (text_lines ''export * from './x';export * from './b/Foo';'')"
proof -
  have 1: "fst (command_handler example_host) = Returned" by code_simp
  have 2: "files example_host (Uri_file ''/ws/a/index.ts'') = Some (File ''export * from './x';'')"
    by code_simp
  have 3: "files (snd (command_handler example_host)) (Uri_file ''/ws/a/index.ts'')
       = Some (File ''export * from './x';export * from './b/Foo';'')"
    by code_simp
  have 4: "text_lines ''export * from './x';export * from './b/Foo';''
       = [''export * from './x';export * from './b/Foo';'']"
    by code_simp
  have 5: "''export * from './b/Foo';''
       \<notin> set (text_lines ''export * from './x';export * from './b/Foo';'')"
    unfolding 4 by simp
  from 1 2 3 4 5 show ?thesis by simp
qed

section \<open>Markers are replaced, not merged\<close>

text \<open>
  Neither \<open>findIndex\<close> nor the loop of the scanner reads or writes the diagnostic
  collection: the markers a scan computes do not depend on the markers that are there.
\<close>

lemma findIndex_loop_cong:
  assumes "\<And>u. fs_stat h' u = fs_stat h u"
  shows "findIndex_loop h' wp w = findIndex_loop h wp w"
proof (induction "100 - iteration w" arbitrary: w)
  case 0
  then show ?case by (simp add: findIndex_loop_stop)
next
  case (Suc n)
  show ?case
  proof (cases "found w")
    case True
    then show ?thesis by (simp add: findIndex_loop_stop)
  next
    case False
    from Suc.hyps have lt: "iteration w < 100" by simp
    let ?u = "Uri_with_path (indexUri w) (indexPath w)"
    let ?p = "posix_join [path ?u, ''..'', ''..'', ''index.ts'']"
    show ?thesis
    proof (cases "fs_stat h ?u")
      case (Inr st)
      with False lt assms show ?thesis by (simp add: findIndex_loop_found)
    next
      case (Inl err)
      show ?thesis
      proof (cases "js_indexOf ?p wp = - 1")
        case True
        with False lt Inl assms show ?thesis by (simp add: findIndex_loop_break)
      next
        case nb: False
        let ?w' = "w\<lparr>indexUri := ?u, probes := probes w + 1, indexPath := ?p,
                      iteration := iteration w + 1\<rparr>"
        have "n = 100 - iteration ?w'" using Suc.hyps by simp
        from Suc.hyps(1) [OF this]
        have "findIndex_loop h' wp ?w' = findIndex_loop h wp ?w'" .
        with False lt Inl nb assms show ?thesis by (simp add: findIndex_loop_continue)
      qed
    qed
  qed
qed

lemma findIndex_diagnostics:
  "findIndex (h\<lparr>diagnostics := d\<rparr>)
   = (fst (findIndex h), (snd (findIndex h))\<lparr>diagnostics := d\<rparr>)"
proof -
  have "findIndex_loop (h\<lparr>diagnostics := d\<rparr>) wp w = findIndex_loop h wp w" for wp w
    by (rule findIndex_loop_cong) (simp add: fs_stat_def)
  then show ?thesis
    by (simp add: findIndex_def Let_def showErrorMessage_def split: list.splits option.splits)
qed

lemma getRelativePath_diagnostics:
  "getRelativePath (h\<lparr>diagnostics := d\<rparr>) u = getRelativePath h u"
  by (simp add: getRelativePath_def)

lemma openTextDocument_diagnostics:
  "openTextDocument (h\<lparr>diagnostics := d\<rparr>) u = openTextDocument h u"
  by (simp add: openTextDocument_def)

lemma refresh_loop_diagnostics:
  "refresh_loop ls i ds (h\<lparr>diagnostics := d\<rparr>)
   = (fst (refresh_loop ls i ds h), (snd (refresh_loop ls i ds h))\<lparr>diagnostics := d\<rparr>)"
proof (induction ls arbitrary: i ds)
  case Nil
  then show ?case by simp
next
  case (Cons l ls)
  show ?case
  proof (cases "findIndex h")
    case (Pair r h1)
    show ?thesis
    proof (cases r)
      case None
      with Pair show ?thesis
        by (simp add: findIndex_diagnostics Cons.IH)
    next
      case (Some iu)
      with Pair have h1: "h1 = h" using findIndex_host [of h r h1] by simp
      show ?thesis
        using Pair Some h1
        by (simp add: findIndex_diagnostics getRelativePath_diagnostics
              openTextDocument_diagnostics Cons.IH Let_def split: option.splits sum.splits)
    qed
  qed
qed

lemma refresh_loop_Completed_host:
  "refresh_loop ls i ds h = (Completed ms, h') \<Longrightarrow> h' = h"
proof (induction ls arbitrary: i ds)
  case Nil
  then show ?case by simp
next
  case (Cons l ls)
  show ?case
  proof (cases "js_includes l EXPORT")
    case False
    with Cons show ?thesis by simp
  next
    case True
    obtain r h1 where fi: "findIndex h = (r, h1)" by (cases "findIndex h")
    show ?thesis
    proof (cases r)
      case None
      with Cons.prems True fi show ?thesis by simp
    next
      case (Some iu)
      with fi have h1: "h1 = h" using findIndex_host [of h r h1] by simp
      from Cons.prems True fi Some h1 show ?thesis
        by (auto simp: Let_def split: option.splits sum.splits if_splits dest: Cons.IH)
    qed
  qed
qed

lemma refreshDiagnostics_replaces:
  assumes "posix_basename (path (Uri_file (fileName doc))) \<noteq> ''index.ts''"
      and "fst (refresh_loop (text_lines (getText doc)) 0 [] h) = Completed ms"
  shows "refreshDiagnostics doc (h\<lparr>diagnostics := d0\<rparr>)
         = (Returned, h\<lparr>diagnostics := d0(uri doc \<mapsto> ms)\<rparr>)"
proof -
  obtain h' where r: "refresh_loop (text_lines (getText doc)) 0 [] h = (Completed ms, h')"
    using assms(2) by (cases "refresh_loop (text_lines (getText doc)) 0 [] h") simp
  then have "h' = h" by (rule refresh_loop_Completed_host)
  with r show ?thesis
    using assms(1) by (simp add: refreshDiagnostics_def refresh_loop_diagnostics)
qed

text \<open>
  Claim C8, amended. Take a scan of a document (not named \<open>index.ts\<close>) that runs to the
  end of its lines and computes the markers \<open>ms\<close>. Then, whatever the collection
  \<open>previous\<close> held, each trigger (a change of the document's text, a change of the active
  editor to the document, the activation with the document active) leaves the document
  with exactly \<open>ms\<close>: its previous markers are gone, and every other document's markers
  are as before (at activation the collection is new, so there are none).
\<close>

theorem scan_replaces_marker_set:
  assumes "posix_basename (path (Uri_file (fileName doc))) \<noteq> ''index.ts''"
      and "fst (refresh_loop (text_lines (getText doc)) 0 [] h) = Completed ms"
  shows "onDidChangeTextDocument doc (h\<lparr>diagnostics := previous\<rparr>)
           = (Returned, h\<lparr>diagnostics := previous(uri doc \<mapsto> ms)\<rparr>)
         \<and> onDidChangeActiveTextEditor (Some doc) (h\<lparr>diagnostics := previous\<rparr>)
           = (Returned, h\<lparr>diagnostics := previous(uri doc \<mapsto> ms)\<rparr>)
         \<and> (activeTextEditor h = Some doc \<longrightarrow>
              activate (h\<lparr>diagnostics := previous\<rparr>)
              = (Returned, h\<lparr>diagnostics := Map.empty(uri doc \<mapsto> ms)\<rparr>))"
  using refreshDiagnostics_replaces [OF assms]
  by (simp add: onDidChangeTextDocument_def onDidChangeActiveTextEditor_def activate_def
        subscribeToDocumentChanges_def)

theorem scan_replaces_marker_set_witness:
  "onDidChangeTextDocument foo_doc (example_host\<lparr>diagnostics := [uri foo_doc \<mapsto> [stale_marker]]\<rparr>)
     = (Returned, example_host\<lparr>diagnostics := [uri foo_doc \<mapsto> [hint_marker 0 0]]\<rparr>)
   \<and> onDidChangeActiveTextEditor (Some foo_doc)
       (example_host\<lparr>diagnostics := [uri foo_doc \<mapsto> [stale_marker]]\<rparr>)
     = (Returned, example_host\<lparr>diagnostics := [uri foo_doc \<mapsto> [hint_marker 0 0]]\<rparr>)
   \<and> activate (example_host\<lparr>diagnostics := [uri foo_doc \<mapsto> [stale_marker]]\<rparr>)
     = (Returned, example_host\<lparr>diagnostics := [uri foo_doc \<mapsto> [hint_marker 0 0]]\<rparr>)"
proof -
  have nb: "posix_basename (path (Uri_file (fileName foo_doc))) \<noteq> ''index.ts''"
    by code_simp
  have sc: "fst (refresh_loop (text_lines (getText foo_doc)) 0 [] example_host)
            = Completed [hint_marker 0 0]"
    by code_simp
  have a: "activeTextEditor example_host = Some foo_doc"
    by (simp add: example_host_def)
  show ?thesis
    using scan_replaces_marker_set [OF nb sc, of "[uri foo_doc \<mapsto> [stale_marker]]"] a
    by simp
qed

text \<open>
  Claim C8 as stated covers every trigger. A scan that returns early replaces nothing:
  in \<open>stale_host\<close> no folder is open, \<open>findIndex\<close> returns \<open>null\<close> at the line with
  \<open>export\<close>, and \<open>refreshDiagnostics\<close> returns before it reaches the collection. The
  document keeps its previous marker, on a line it no longer has.
\<close>

theorem scan_keeps_stale_markers_counterexample:
  "diagnostics stale_host (uri foo_doc) = Some [stale_marker]
   \<and> onDidChangeTextDocument foo_doc stale_host
       = (Returned, showErrorMessage ''No folder/workspace open.'' stale_host)
   \<and> diagnostics (snd (onDidChangeTextDocument foo_doc stale_host)) (uri foo_doc)
       = Some [stale_marker]
   \<and> lineCount foo_doc = 1
   \<and> line (range_start (diag_range stale_marker)) = 7"
proof -
  have nb: "posix_basename (path (Uri_file (fileName foo_doc))) \<noteq> ''index.ts''"
    by code_simp
  have ls: "text_lines (getText foo_doc) = [''export class Foo {}'']"
    by code_simp
  have inc: "js_includes ''export class Foo {}'' EXPORT"
    by code_simp
  have fi: "findIndex stale_host = (None, showErrorMessage ''No folder/workspace open.'' stale_host)"
    by (simp add: findIndex_def stale_host_def)
  have r: "onDidChangeTextDocument foo_doc stale_host
       = (Returned, showErrorMessage ''No folder/workspace open.'' stale_host)"
    by (simp add: onDidChangeTextDocument_def refreshDiagnostics_def nb ls inc fi Let_def)
  have d: "diagnostics stale_host (uri foo_doc) = Some [stale_marker]"
    by (simp add: stale_host_def)
  have lc: "lineCount foo_doc = 1" by (simp add: lineCount_def ls)
  have l7: "line (range_start (diag_range stale_marker)) = 7"
    by (simp add: stale_marker_def hint_marker_def Range_def)
  show ?thesis unfolding r using d lc l7 by (simp add: showErrorMessage_def)
qed

section \<open>The scanner looks up the active file\<close>

lemma refresh_loop_throws:
  assumes "findIndex h = (Some iu, h)" and "getRelativePath h iu = Some rel"
      and "openTextDocument h iu = Inl err"
      and "list_ex (\<lambda>l. sublist ''export'' l) ls"
  shows "refresh_loop ls i ds h = (Raised err, h)"
  using assms(4)
  by (induction ls arbitrary: i) (auto simp: assms(1,2,3) js_includes_sublist EXPORT_def)

text \<open>
  Claim C10. \<open>refreshDiagnostics\<close> scans the document it is given, but asks
  \<open>findIndex\<close> and \<open>getRelativePath\<close> for the barrel file and the specifier, and both read
  the active editor's URI. For a document \<open>doc\<close> (not named \<open>index.ts\<close>) with a line that
  contains \<open>export\<close>, scanned while \<open>active\<close> is the active editor's document: the walk
  starts from the directory of \<open>active\<close>, the specifier is built from the directory and
  base name of \<open>active\<close>, and the markers of \<open>doc\<close> are suppressed exactly when that
  specifier occurs in that barrel file. Of \<open>doc\<close> only its URI (the key of the marker set)
  and its lines are used.
\<close>

theorem scanner_uses_active_file:
  assumes "workspaceFolders h = W # others" and "activeTextEditor h = Some active"
      and "posix_basename (path (Uri_file (fileName doc))) \<noteq> ''index.ts''"
      and "list_ex (\<lambda>l. sublist ''export'' l) (text_lines (getText doc))"
  shows "refreshDiagnostics doc h =
     (let p = posix_join [path (uri active), ''..'', ''index.ts''];
          iu = indexUri (findIndex_loop h (path W)
                 \<lparr>indexUri = Uri_file p, indexPath = p, found = False, iteration = 0,
                  probes = 0\<rparr>);
          rel = js_replace (posix_dirname (path (uri active))) (posix_dirname (path iu)) []
                @ ''/'' @ posix_basename_ext (path (uri active)) ''.ts''
      in case files h iu of
           Some (File txt) \<Rightarrow>
             (Returned,
              h\<lparr>diagnostics := (diagnostics h)(uri doc \<mapsto>
                   (if sublist rel txt then [] else spec_markers (text_lines (getText doc))))\<rparr>)
         | _ \<Rightarrow> (Threw (CannotOpen iu), h))"
proof -
  define p where "p = posix_join [path (uri active), ''..'', ''index.ts'']"
  define iu where "iu = indexUri (findIndex_loop h (path W)
                 \<lparr>indexUri = Uri_file p, indexPath = p, found = False, iteration = 0,
                  probes = 0\<rparr>)"
  define rel where "rel = js_replace (posix_dirname (path (uri active))) (posix_dirname (path iu)) []
                @ ''/'' @ posix_basename_ext (path (uri active)) ''.ts''"
  have fi: "findIndex h = (Some iu, h)"
    by (simp add: findIndex_def assms(1,2) Let_def iu_def p_def)
  have gr: "getRelativePath h iu = Some rel"
    by (simp add: getRelativePath_def assms(2) Let_def rel_def)
  have "refreshDiagnostics doc h =
     (case files h iu of
           Some (File txt) \<Rightarrow>
             (Returned,
              h\<lparr>diagnostics := (diagnostics h)(uri doc \<mapsto>
                   (if sublist rel txt then [] else spec_markers (text_lines (getText doc))))\<rparr>)
         | _ \<Rightarrow> (Threw (CannotOpen iu), h))"
  proof (cases "openTextDocument h iu")
    case (Inl err)
    then have "files h iu = None \<or> files h iu = Some Directory" and "err = CannotOpen iu"
      by (auto simp: openTextDocument_def split: option.splits fs_entry.splits)
    then show ?thesis
      using refresh_loop_throws [OF fi gr Inl assms(4)] assms(3)
      by (auto simp: refreshDiagnostics_def)
  next
    case (Inr b)
    then have f: "files h iu = Some (File (getText b))"
      by (auto simp: openTextDocument_def split: option.splits fs_entry.splits)
    show ?thesis
      using assms(3)
      by (simp add: refreshDiagnostics_def refresh_loop_resolved [OF fi gr Inr] f
            spec_markers_def)
  qed
  then show ?thesis
    unfolding Let_def p_def [symmetric] iu_def [symmetric] rel_def [symmetric] .
qed

text \<open>
  In \<open>exported_host\<close> the active file is \<open>/ws/a/b/Foo.ts\<close>, already exported by
  \<open>/ws/a/index.ts\<close>. A scan of \<open>/ws/x/Bar.ts\<close> emits no marker, although the barrel
  file next to it is empty.
\<close>

theorem scanner_uses_active_file_witness:
  "refreshDiagnostics bar_doc exported_host =
     (Returned,
      exported_host\<lparr>diagnostics := (diagnostics exported_host)(uri bar_doc \<mapsto> [])\<rparr>)
   \<and> activeTextEditor exported_host = Some foo_doc
   \<and> files exported_host (Uri_file ''/ws/x/index.ts'') = Some (File [])"
proof -
  have 1: "workspaceFolders exported_host = Uri_file ''/ws'' # []"
    and 2: "activeTextEditor exported_host = Some foo_doc"
    and 5: "files exported_host (Uri_file ''/ws/x/index.ts'') = Some (File [])"
    by (simp_all add: exported_host_def)
  have 3: "posix_basename (path (Uri_file (fileName bar_doc))) \<noteq> ''index.ts''"
    by code_simp
  have 4: "list_ex (\<lambda>l. sublist ''export'' l) (text_lines (getText bar_doc))"
    by code_simp
  have p: "posix_join [path (uri foo_doc), ''..'', ''index.ts''] = ''/ws/a/b/index.ts''"
    by code_simp
  have iu: "indexUri (findIndex_loop exported_host (path (Uri_file ''/ws''))
                 \<lparr>indexUri = Uri_file ''/ws/a/b/index.ts'', indexPath = ''/ws/a/b/index.ts'',
                  found = False, iteration = 0, probes = 0\<rparr>) = Uri_file ''/ws/a/index.ts''"
    by code_simp
  have f: "files exported_host (Uri_file ''/ws/a/index.ts'') = Some (File ''export * from './b/Foo';'')"
    by code_simp
  have rel: "js_replace (posix_dirname (path (uri foo_doc)))
               (posix_dirname (path (Uri_file ''/ws/a/index.ts''))) []
             @ ''/'' @ posix_basename_ext (path (uri foo_doc)) ''.ts'' = ''/b/Foo''"
    by code_simp
  have s: "sublist ''/b/Foo'' ''export * from './b/Foo';''" by code_simp
  have "refreshDiagnostics bar_doc exported_host =
     (Returned,
      exported_host\<lparr>diagnostics := (diagnostics exported_host)(uri bar_doc \<mapsto> [])\<rparr>)"
    using scanner_uses_active_file [OF 1 2 3 4]
    unfolding Let_def p iu f rel using s by simp
  with 2 5 show ?thesis by simp
qed

end
